theory Spec2Isabelle
  imports Complex_Main "HOL-Library.AList" "HOL-Library.Multiset" "HOL-Library.Word"
begin

section \<open>Data model\<close>

text \<open>
  The embedded file is
  \<^verbatim>\<open>staging/src/k8s.io/component-helpers/scheduling/corev1/helpers.go\<close>.
  Its types come from \<^verbatim>\<open>k8s.io/api/core/v1\<close> and
  \<^verbatim>\<open>k8s.io/apimachinery/pkg/api/resource\<close>; only the fields and methods that
  the helpers touch are modelled.
\<close>

subsection \<open>Quantity\<close>

text \<open>
  Modelled from the spec: the type \<^verbatim>\<open>resource.Quantity\<close> and its methods
  \<^verbatim>\<open>Add\<close>, \<^verbatim>\<open>Cmp\<close>, \<^verbatim>\<open>IsZero\<close> and \<^verbatim>\<open>DeepCopy\<close> are declared outside the
  embedded file. The spec describes a Quantity as a numeric value with exact addition,
  magnitude comparison, a zero test and a copy. A Quantity is a decimal number of
  unbounded precision, so its value is a rational; the display format it also carries
  plays no part in any of the four methods' results and is left out.
\<close>

type_synonym Quantity = rat

definition Add :: "Quantity \<Rightarrow> Quantity \<Rightarrow> Quantity" where
  "Add q y = q + y"

definition Cmp :: "Quantity \<Rightarrow> Quantity \<Rightarrow> int" where
  "Cmp q y = (if q < y then - 1 else if q = y then 0 else 1)"

definition IsZero :: "Quantity \<Rightarrow> bool" where
  "IsZero q \<longleftrightarrow> q = 0"

definition DeepCopy :: "Quantity \<Rightarrow> Quantity" where
  "DeepCopy q = q"

subsection \<open>Resource lists, containers, pods\<close>

text \<open>
  \<^verbatim>\<open>v1.ResourceList\<close> is \<^verbatim>\<open>map[ResourceName]resource.Quantity\<close>. The helpers
  iterate over such maps with \<^verbatim>\<open>range\<close>, so a resource list is an association
  list: the order of the list is the order in which \<^verbatim>\<open>range\<close> visits the entries
  (Go leaves that order unspecified, and the theorems below hold for every order).
  A Go map holds each key once; \<open>wf_ResourceList\<close> says so. Reading \<^verbatim>\<open>list[name]\<close>
  is \<open>map_of list name\<close>, the assignment \<^verbatim>\<open>list[name] = v\<close> is
  \<open>AList.update name v list\<close>, and \<^verbatim>\<open>delete(list, k)\<close> is \<open>AList.delete k list\<close>.
  A nil map behaves as the empty one wherever the code only ranges over it; where the
  code tests for nil, the value is an \<open>option\<close>.
\<close>

type_synonym ResourceName = string

type_synonym ResourceList = "(ResourceName \<times> Quantity) list"


text \<open>
  Modelled from the spec: the declarations of \<^verbatim>\<open>v1.ResourceRequirements\<close>,
  \<^verbatim>\<open>v1.Container\<close>, \<^verbatim>\<open>v1.PodSpec\<close> and \<^verbatim>\<open>v1.Pod\<close> are outside the embedded file.
  The records carry the fields that the helpers read: a container has two resource
  lists, a pod an ordered sequence of regular containers, an ordered sequence of init
  containers, an optional overhead and an optional priority. The records are parametric
  in the representation \<open>'rl\<close> of a resource list: the list itself where a property is
  about the values computed, a reference into a store where it is about aliasing.
\<close>

record 'rl ResourceRequirements =
  Limits :: 'rl
  Requests :: 'rl

record 'rl Container =
  Resources :: "'rl ResourceRequirements"

record 'rl PodSpec =
  Containers :: "'rl Container list"
  InitContainers :: "'rl Container list"
  Overhead :: "'rl option"
  Priority :: "32 word option"

record 'rl Pod =
  Spec :: "'rl PodSpec"



subsection \<open>Options\<close>

type_synonym ContainerType = "8 word"

definition ContainerTypeContainers :: ContainerType where
  "ContainerTypeContainers = push_bit (0::nat) 1"

definition ContainerTypeInitContainers :: ContainerType where
  "ContainerTypeInitContainers = push_bit (1::nat) 1"

text \<open>
  \<^verbatim>\<open>ContainerFn\<close> is a callback without a result: what it does, it does to state of
  the caller. That state is the type parameter \<open>'s\<close>, and the callback is a function
  from the resource list and the container type to a transformer of \<open>'s\<close>. The
  callback is taken to leave the pod and the accumulator alone. A nil callback and a
  nil \<^verbatim>\<open>Reuse\<close> map are \<open>None\<close>.
\<close>

record ('rl, 's) PodResourcesOptions =
  Reuse :: "'rl option"
  ExcludeOverhead :: bool
  ContainerFn :: "(ResourceList \<Rightarrow> ContainerType \<Rightarrow> 's \<Rightarrow> 's) option"

text \<open>The zero value \<^verbatim>\<open>&PodResourcesOptions{}\<close>.\<close>

definition zero_PodResourcesOptions :: "('rl, 's) PodResourcesOptions" where
  "zero_PodResourcesOptions = \<lparr>Reuse = None, ExcludeOverhead = False, ContainerFn = None\<rparr>"

text \<open>\<^verbatim>\<open>PodPriority\<close>: the priority of the pod, 0 when it has none.\<close>

definition PodPriority :: "'rl Pod \<Rightarrow> 32 word" where
  "PodPriority pod = (case Priority (Spec pod) of Some p \<Rightarrow> p | None \<Rightarrow> 0)"

section \<open>Resource aggregation on values\<close>

text \<open>
  The spec presents the aggregator as two operations on values,
  \<^verbatim>\<open>ComputeRequests(pod, options) -> ResourceList\<close> and \<^verbatim>\<open>ComputeLimits\<close>, and gives
  their algorithm in five steps. This section writes that algorithm down on resource
  lists as values. The loops have the bodies of the loops of the source, but a value
  has no identity: here the reuse map is never one of the pod's own resource lists, and
  nothing that is written to the accumulator reaches an input. The functions
  \<^verbatim>\<open>PodRequests\<close> and \<^verbatim>\<open>PodLimits\<close> of the source work on map objects, which can be one
  and the same; they are embedded in the section on the store as \<open>PodRequests_store\<close>
  and \<open>PodLimits_store\<close>. The lemmas \<open>PodRequests_store_refines\<close> and
  \<open>PodLimits_store_refines\<close> compare the two levels: they return the same lists
  whenever the reuse map is none of the pod's own maps.
\<close>

text \<open>
  The loop of \<^verbatim>\<open>addResourceList\<close> on the contents of two maps: one step per entry of
  \<open>newList\<close>.
\<close>

definition addResourceList :: "ResourceList \<Rightarrow> ResourceList \<Rightarrow> ResourceList" where
  "addResourceList list newList =
     fold (\<lambda>(name, quantity) list.
             case map_of list name of
               None \<Rightarrow> AList.update name (DeepCopy quantity) list
             | Some value \<Rightarrow> AList.update name (Add value quantity) list)
          newList list"

text \<open>The loop of \<^verbatim>\<open>maxResourceList\<close> on the contents of two maps.\<close>

definition maxResourceList :: "ResourceList \<Rightarrow> ResourceList \<Rightarrow> ResourceList" where
  "maxResourceList list newList =
     fold (\<lambda>(name, quantity) list.
             case map_of list name of
               None \<Rightarrow> AList.update name (DeepCopy quantity) list
             | Some value \<Rightarrow>
                 if Cmp quantity value > 0 then AList.update name (DeepCopy quantity) list
                 else list)
          newList list"

text \<open>
  \<^verbatim>\<open>reuseOrClearResourceList\<close>: a nil map gives a fresh empty one; otherwise every key
  that \<^verbatim>\<open>range\<close> produces is deleted from the map, and the map is returned.
\<close>

definition reuseOrClearResourceList :: "ResourceList option \<Rightarrow> ResourceList" where
  "reuseOrClearResourceList reuse =
     (case reuse of
        None \<Rightarrow> []
      | Some r \<Rightarrow> fold (\<lambda>k r. AList.delete k r) (map fst r) r)"

text \<open>The guarded call \<^verbatim>\<open>if opts.ContainerFn != nil { opts.ContainerFn(res, t) }\<close>.\<close>

definition callContainerFn ::
  "('rl, 's) PodResourcesOptions \<Rightarrow> ResourceList \<Rightarrow> ContainerType \<Rightarrow> 's \<Rightarrow> 's" where
  "callContainerFn opts res t s =
     (case ContainerFn opts of None \<Rightarrow> s | Some f \<Rightarrow> f res t s)"

text \<open>
  \<^verbatim>\<open>ComputeRequests\<close> of the spec: steps 1 to 5 of its algorithm, with the rule for
  requests in step 4. The result is the resource list together with the state of the
  caller after the callbacks.
\<close>

definition ComputeRequests ::
  "ResourceList Pod \<Rightarrow> (ResourceList, 's) PodResourcesOptions option \<Rightarrow> 's \<Rightarrow>
     ResourceList \<times> 's" where
  "ComputeRequests pod opts0 s0 =
     (let opts = (case opts0 of None \<Rightarrow> zero_PodResourcesOptions | Some opts \<Rightarrow> opts);
          reqs = reuseOrClearResourceList (Reuse opts);
          (reqs, s) =
            fold (\<lambda>container (reqs, s).
                    let s = callContainerFn opts (Requests (Resources container))
                              ContainerTypeContainers s
                    in (addResourceList reqs (Requests (Resources container)), s))
                 (Containers (Spec pod)) (reqs, s0);
          (reqs, s) =
            fold (\<lambda>container (reqs, s).
                    let s = callContainerFn opts (Requests (Resources container))
                              ContainerTypeInitContainers s
                    in (maxResourceList reqs (Requests (Resources container)), s))
                 (InitContainers (Spec pod)) (reqs, s);
          reqs =
            (case Overhead (Spec pod) of
               Some overhead \<Rightarrow>
                 if \<not> ExcludeOverhead opts then addResourceList reqs overhead else reqs
             | None \<Rightarrow> reqs)
      in (reqs, s))"

text \<open>
  \<^verbatim>\<open>ComputeLimits\<close> of the spec, with the rule for limits in step 4: an overhead entry
  is added only to an entry of the accumulator that is there and not zero.
\<close>

definition ComputeLimits ::
  "ResourceList Pod \<Rightarrow> (ResourceList, 's) PodResourcesOptions option \<Rightarrow> 's \<Rightarrow>
     ResourceList \<times> 's" where
  "ComputeLimits pod opts0 s0 =
     (let opts = (case opts0 of None \<Rightarrow> zero_PodResourcesOptions | Some opts \<Rightarrow> opts);
          limits = reuseOrClearResourceList (Reuse opts);
          (limits, s) =
            fold (\<lambda>container (limits, s).
                    let s = callContainerFn opts (Limits (Resources container))
                              ContainerTypeContainers s
                    in (addResourceList limits (Limits (Resources container)), s))
                 (Containers (Spec pod)) (limits, s0);
          (limits, s) =
            fold (\<lambda>container (limits, s).
                    let s = callContainerFn opts (Limits (Resources container))
                              ContainerTypeInitContainers s
                    in (maxResourceList limits (Limits (Resources container)), s))
                 (InitContainers (Spec pod)) (limits, s);
          limits =
            (case Overhead (Spec pod) of
               Some overhead \<Rightarrow>
                 if \<not> ExcludeOverhead opts then
                   fold (\<lambda>(name, quantity) limits.
                           case map_of limits name of
                             Some value \<Rightarrow>
                               if \<not> IsZero value
                               then AList.update name (Add value quantity) limits
                               else limits
                           | None \<Rightarrow> limits)
                        overhead limits
                 else limits
             | None \<Rightarrow> limits)
      in (limits, s))"

section \<open>Taints and tolerations\<close>

text \<open>
  Modelled from the spec: the declarations of \<^verbatim>\<open>v1.Taint\<close> and \<^verbatim>\<open>v1.Toleration\<close>
  are outside the embedded file. A taint has a key, a value, an effect and an optional
  timestamp; a toleration has a key, an operator, a value, an effect and an optional
  number of seconds. The zero value \<^verbatim>\<open>v1.Taint{}\<close> has empty strings and no
  timestamp.
\<close>

record Taint =
  Key :: string
  Value :: string
  Effect :: string
  TimeAdded :: "int option"

record Toleration =
  TKey :: string
  Operator :: string
  TValue :: string
  TEffect :: string
  TolerationSeconds :: "64 word option"

definition zero_Taint :: Taint where
  "zero_Taint = \<lparr>Key = [], Value = [], Effect = [], TimeAdded = None\<rparr>"

text \<open>
  The method \<^verbatim>\<open>Toleration.ToleratesTaint\<close> is declared outside the embedded file and
  the spec assumes it given. It is the parameter \<open>ToleratesTaint\<close> of the functions
  below, so that every theorem holds for whatever matching rule the method implements.
  The filter and the method receive a pointer to the taint; both are taken to be
  predicates that leave it unchanged.
\<close>

text \<open>\<^verbatim>\<open>TolerationsTolerateTaint\<close>: the loop returns at the first toleration that matches.\<close>

fun TolerationsTolerateTaint ::
  "(Toleration \<Rightarrow> Taint \<Rightarrow> bool) \<Rightarrow> Toleration list \<Rightarrow> Taint \<Rightarrow> bool" where
  "TolerationsTolerateTaint ToleratesTaint [] taint = False"
| "TolerationsTolerateTaint ToleratesTaint (t # tolerations) taint =
     (if ToleratesTaint t taint then True
      else TolerationsTolerateTaint ToleratesTaint tolerations taint)"

text \<open>\<^verbatim>\<open>getFilteredTaints\<close>: a nil filter returns the taints as they are.\<close>

definition getFilteredTaints :: "Taint list \<Rightarrow> (Taint \<Rightarrow> bool) option \<Rightarrow> Taint list" where
  "getFilteredTaints taints inclusionFilter =
     (case inclusionFilter of
        None \<Rightarrow> taints
      | Some f \<Rightarrow>
          fold (\<lambda>taint filteredTaints.
                  if \<not> f taint then filteredTaints else filteredTaints @ [taint])
               taints [])"

text \<open>The scanning loop of \<^verbatim>\<open>FindMatchingUntoleratedTaint\<close>.\<close>

fun scanTaints ::
  "(Toleration \<Rightarrow> Taint \<Rightarrow> bool) \<Rightarrow> Toleration list \<Rightarrow> Taint list \<Rightarrow> Taint \<times> bool" where
  "scanTaints ToleratesTaint tolerations [] = (zero_Taint, False)"
| "scanTaints ToleratesTaint tolerations (taint # filteredTaints) =
     (if \<not> TolerationsTolerateTaint ToleratesTaint tolerations taint then (taint, True)
      else scanTaints ToleratesTaint tolerations filteredTaints)"

definition FindMatchingUntoleratedTaint ::
  "(Toleration \<Rightarrow> Taint \<Rightarrow> bool) \<Rightarrow> Taint list \<Rightarrow> Toleration list \<Rightarrow>
     (Taint \<Rightarrow> bool) option \<Rightarrow> Taint \<times> bool" where
  "FindMatchingUntoleratedTaint ToleratesTaint taints tolerations inclusionFilter =
     scanTaints ToleratesTaint tolerations (getFilteredTaints taints inclusionFilter)"

text \<open>
  Modelled from the spec: a matching rule standing for the absent method
  \<^verbatim>\<open>Toleration.ToleratesTaint\<close>, used for the concrete examples only. After the
  spec's description of a toleration, the effect matches when the toleration's effect is
  empty or equal, the key when it is empty or equal, and the value under the operator
  \<^verbatim>\<open>Equal\<close> (or the empty operator) when equal, under \<^verbatim>\<open>Exists\<close> always.
\<close>

definition sampleToleratesTaint :: "Toleration \<Rightarrow> Taint \<Rightarrow> bool" where
  "sampleToleratesTaint t taint =
     (if TEffect t \<noteq> [] \<and> TEffect t \<noteq> Effect taint then False
      else if TKey t \<noteq> [] \<and> TKey t \<noteq> Key taint then False
      else if Operator t = [] \<or> Operator t = ''Equal'' then TValue t = Value taint
      else if Operator t = ''Exists'' then True
      else False)"

section \<open>Element-wise sum and maximum, as the spec words them\<close>

text \<open>
  The spec describes the result of the aggregation as an element-wise sum over the
  regular containers, merged with an element-wise maximum over the init containers.
  These definitions follow those words and not the code: \<open>values_of ls name\<close> are the
  quantities that the lists \<open>ls\<close> declare for \<open>name\<close>, in order; a name that no list
  declares has no sum and no maximum.
\<close>

definition requestsOf :: "'rl Container \<Rightarrow> 'rl" where
  "requestsOf c = Requests (Resources c)"


definition values_of :: "ResourceList list \<Rightarrow> ResourceName \<Rightarrow> Quantity list" where
  "values_of ls name = List.map_filter (\<lambda>l. map_of l name) ls"




section \<open>Example taints and tolerations\<close>

definition taintA :: Taint where
  "taintA = \<lparr>Key = ''dedicated'', Value = ''batch'', Effect = ''NoSchedule'', TimeAdded = None\<rparr>"

definition taintB :: Taint where
  "taintB = \<lparr>Key = ''maintenance'', Value = ''true'', Effect = ''NoExecute'', TimeAdded = None\<rparr>"

definition tolerationB :: Toleration where
  "tolerationB = \<lparr>TKey = ''maintenance'', Operator = ''Equal'', TValue = ''true'',
                   TEffect = ''NoExecute'', TolerationSeconds = None\<rparr>"

definition tolerationC :: Toleration where
  "tolerationC = \<lparr>TKey = ''spot'', Operator = ''Exists'', TValue = [],
                   TEffect = [], TolerationSeconds = None\<rparr>"

definition onlyNoExecute :: "Taint \<Rightarrow> bool" where
  "onlyNoExecute taint \<longleftrightarrow> Effect taint = ''NoExecute''"

section \<open>The aggregation on a store\<close>

text \<open>
  A \<^verbatim>\<open>v1.ResourceList\<close> is a reference to a map object, so two resource lists can
  be the same map, and a \<^verbatim>\<open>resource.Quantity\<close> is a struct that may own heap storage
  for its number, which a struct copy shares and \<^verbatim>\<open>DeepCopy\<close> does not. Properties
  about what a call may change need both. The store holds the map objects and the
  number cells, each with the next free address; a resource list is the address of a
  map, and an entry of a map is the address of the cell of its quantity. A nil map of a
  container is the address of a map without entries.
\<close>

type_synonym addr = nat

record Store =
  maps :: "addr \<Rightarrow> (ResourceName \<times> addr) list"
  cells :: "addr \<Rightarrow> Quantity"
  next_map :: addr
  next_cell :: addr

text \<open>The contents of a resource list, read through the store.\<close>

definition readList :: "Store \<Rightarrow> addr \<Rightarrow> ResourceList" where
  "readList \<sigma> m = map (\<lambda>(name, a). (name, cells \<sigma> a)) (maps \<sigma> m)"

text \<open>
  Modelled from the spec: the methods of \<^verbatim>\<open>resource.Quantity\<close> are declared outside
  the embedded file, and with them what they share. The spec asks for an explicit copy
  whenever a quantity is stored into a new map slot, so that no two slots alias. The
  store takes the reading with the most sharing: reading a quantity out of a map or
  storing it copies the address of its cell, \<^verbatim>\<open>DeepCopy\<close> allocates a new cell with
  the same value, and \<^verbatim>\<open>Add\<close> writes the receiver's cell.
\<close>

definition DeepCopy_store :: "addr \<Rightarrow> Store \<Rightarrow> addr \<times> Store" where
  "DeepCopy_store q \<sigma> =
     (next_cell \<sigma>,
      \<sigma>\<lparr>cells := (cells \<sigma>)(next_cell \<sigma> := DeepCopy (cells \<sigma> q)),
        next_cell := Suc (next_cell \<sigma>)\<rparr>)"

definition Add_store :: "addr \<Rightarrow> addr \<Rightarrow> Store \<Rightarrow> Store" where
  "Add_store q y \<sigma> = \<sigma>\<lparr>cells := (cells \<sigma>)(q := Add (cells \<sigma> q) (cells \<sigma> y))\<rparr>"

text \<open>The assignment \<^verbatim>\<open>list[name] = q\<close>.\<close>

definition assign :: "addr \<Rightarrow> ResourceName \<Rightarrow> addr \<Rightarrow> Store \<Rightarrow> Store" where
  "assign list name q \<sigma> = \<sigma>\<lparr>maps := (maps \<sigma>)(list := AList.update name q (maps \<sigma> list))\<rparr>"

text \<open>
  The functions of the file on the store: \<^verbatim>\<open>addResourceList\<close>,
  \<^verbatim>\<open>maxResourceList\<close>, \<^verbatim>\<open>reuseOrClearResourceList\<close>, \<^verbatim>\<open>PodRequests\<close> and
  \<^verbatim>\<open>PodLimits\<close>. The accumulator and the map that is read may be the same map.
  \<^verbatim>\<open>range newList\<close> visits the entries that \<open>newList\<close> has when the loop starts; no
  loop of the file adds a key to the map that it ranges over.
\<close>

definition addResourceList_store :: "addr \<Rightarrow> addr \<Rightarrow> Store \<Rightarrow> Store" where
  "addResourceList_store list newList \<sigma> =
     fold (\<lambda>(name, quantity) \<sigma>.
             case map_of (maps \<sigma> list) name of
               None \<Rightarrow>
                 (let (copy, \<sigma>) = DeepCopy_store quantity \<sigma> in assign list name copy \<sigma>)
             | Some value \<Rightarrow> assign list name value (Add_store value quantity \<sigma>))
          (maps \<sigma> newList) \<sigma>"

definition maxResourceList_store :: "addr \<Rightarrow> addr \<Rightarrow> Store \<Rightarrow> Store" where
  "maxResourceList_store list newList \<sigma> =
     fold (\<lambda>(name, quantity) \<sigma>.
             case map_of (maps \<sigma> list) name of
               None \<Rightarrow>
                 (let (copy, \<sigma>) = DeepCopy_store quantity \<sigma> in assign list name copy \<sigma>)
             | Some value \<Rightarrow>
                 if Cmp (cells \<sigma> quantity) (cells \<sigma> value) > 0
                 then (let (copy, \<sigma>) = DeepCopy_store quantity \<sigma> in assign list name copy \<sigma>)
                 else \<sigma>)
          (maps \<sigma> newList) \<sigma>"

definition reuseOrClearResourceList_store :: "addr option \<Rightarrow> Store \<Rightarrow> addr \<times> Store" where
  "reuseOrClearResourceList_store reuse \<sigma> =
     (case reuse of
        None \<Rightarrow>
          (next_map \<sigma>,
           \<sigma>\<lparr>maps := (maps \<sigma>)(next_map \<sigma> := []), next_map := Suc (next_map \<sigma>)\<rparr>)
      | Some r \<Rightarrow>
          (r, fold (\<lambda>k \<sigma>. \<sigma>\<lparr>maps := (maps \<sigma>)(r := AList.delete k (maps \<sigma> r))\<rparr>)
                (map fst (maps \<sigma> r)) \<sigma>))"

text \<open>
  The callback receives the resource list; what it sees are the contents at the time of
  the call.
\<close>

definition PodRequests_store ::
  "addr Pod \<Rightarrow> (addr, 's) PodResourcesOptions option \<Rightarrow> Store \<times> 's \<Rightarrow> addr \<times> Store \<times> 's" where
  "PodRequests_store pod opts0 st0 =
     (let opts = (case opts0 of None \<Rightarrow> zero_PodResourcesOptions | Some opts \<Rightarrow> opts);
          (reqs, \<sigma>) = reuseOrClearResourceList_store (Reuse opts) (fst st0);
          (\<sigma>, s) =
            fold (\<lambda>container (\<sigma>, s).
                    let s = callContainerFn opts (readList \<sigma> (Requests (Resources container)))
                              ContainerTypeContainers s
                    in (addResourceList_store reqs (Requests (Resources container)) \<sigma>, s))
                 (Containers (Spec pod)) (\<sigma>, snd st0);
          (\<sigma>, s) =
            fold (\<lambda>container (\<sigma>, s).
                    let s = callContainerFn opts (readList \<sigma> (Requests (Resources container)))
                              ContainerTypeInitContainers s
                    in (maxResourceList_store reqs (Requests (Resources container)) \<sigma>, s))
                 (InitContainers (Spec pod)) (\<sigma>, s);
          \<sigma> =
            (case Overhead (Spec pod) of
               Some overhead \<Rightarrow>
                 if \<not> ExcludeOverhead opts then addResourceList_store reqs overhead \<sigma> else \<sigma>
             | None \<Rightarrow> \<sigma>)
      in (reqs, \<sigma>, s))"

definition PodLimits_store ::
  "addr Pod \<Rightarrow> (addr, 's) PodResourcesOptions option \<Rightarrow> Store \<times> 's \<Rightarrow> addr \<times> Store \<times> 's" where
  "PodLimits_store pod opts0 st0 =
     (let opts = (case opts0 of None \<Rightarrow> zero_PodResourcesOptions | Some opts \<Rightarrow> opts);
          (limits, \<sigma>) = reuseOrClearResourceList_store (Reuse opts) (fst st0);
          (\<sigma>, s) =
            fold (\<lambda>container (\<sigma>, s).
                    let s = callContainerFn opts (readList \<sigma> (Limits (Resources container)))
                              ContainerTypeContainers s
                    in (addResourceList_store limits (Limits (Resources container)) \<sigma>, s))
                 (Containers (Spec pod)) (\<sigma>, snd st0);
          (\<sigma>, s) =
            fold (\<lambda>container (\<sigma>, s).
                    let s = callContainerFn opts (readList \<sigma> (Limits (Resources container)))
                              ContainerTypeInitContainers s
                    in (maxResourceList_store limits (Limits (Resources container)) \<sigma>, s))
                 (InitContainers (Spec pod)) (\<sigma>, s);
          \<sigma> =
            (case Overhead (Spec pod) of
               Some overhead \<Rightarrow>
                 if \<not> ExcludeOverhead opts then
                   fold (\<lambda>(name, quantity) \<sigma>.
                           case map_of (maps \<sigma> limits) name of
                             Some value \<Rightarrow>
                               if \<not> IsZero (cells \<sigma> value)
                               then assign limits name value (Add_store value quantity \<sigma>)
                               else \<sigma>
                           | None \<Rightarrow> \<sigma>)
                        (maps \<sigma> overhead) \<sigma>
                 else \<sigma>
             | None \<Rightarrow> \<sigma>)
      in (limits, \<sigma>, s))"

text \<open>The contents of the map that a call returns, in the store that the call leaves.\<close>

definition resultOf :: "addr \<times> Store \<times> 's \<Rightarrow> ResourceList" where
  "resultOf res = readList (fst (snd res)) (fst res)"

text \<open>
  The resource lists that a pod refers to: requests and limits of every regular and
  init container, and the overhead.
\<close>

definition podRefs :: "addr Pod \<Rightarrow> addr list" where
  "podRefs pod =
     concat (map (\<lambda>c. [Requests (Resources c), Limits (Resources c)])
               (Containers (Spec pod) @ InitContainers (Spec pod)))
     @ (case Overhead (Spec pod) of None \<Rightarrow> [] | Some overhead \<Rightarrow> [overhead])"

text \<open>
  The maps of the pod are allocated, and so are the cells of their entries: addresses
  below the next free ones.
\<close>

definition inputs_allocated :: "Store \<Rightarrow> addr Pod \<Rightarrow> bool" where
  "inputs_allocated \<sigma> pod \<longleftrightarrow>
     list_all (\<lambda>m. m < next_map \<sigma> \<and> list_all (\<lambda>(name, a). a < next_cell \<sigma>) (maps \<sigma> m))
       (podRefs pod)"

text \<open>The reuse map, when there is one, is none of the pod's own resource lists.\<close>

definition reuse_separate :: "addr Pod \<Rightarrow> (addr, 's) PodResourcesOptions option \<Rightarrow> bool" where
  "reuse_separate pod opts0 \<longleftrightarrow>
     (case opts0 of
        None \<Rightarrow> True
      | Some opts \<Rightarrow> (case Reuse opts of None \<Rightarrow> True | Some r \<Rightarrow> r \<notin> set (podRefs pod)))"

text \<open>
  What a call leaves of the input map \<open>m\<close>, given the store \<open>\<sigma>\<close> before the call and
  the result \<open>res\<close>: the map object and its contents are as before, no cell of the
  returned map is a cell of \<open>m\<close>, and writing \<open>v\<close> into a cell of the returned map
  leaves the contents of \<open>m\<close> as they were.
\<close>

definition input_isolated :: "Store \<Rightarrow> addr \<Rightarrow> Quantity \<Rightarrow> addr \<times> Store \<times> 's \<Rightarrow> bool" where
  "input_isolated \<sigma> m v res =
     (let (out, \<sigma>', s') = res in
        maps \<sigma>' m = maps \<sigma> m \<and> readList \<sigma>' m = readList \<sigma> m
        \<and> (\<forall>a\<in>snd ` set (maps \<sigma>' out).
              a \<notin> snd ` set (maps \<sigma> m)
              \<and> readList (\<sigma>'\<lparr>cells := (cells \<sigma>')(a := v)\<rparr>) m = readList \<sigma> m))"

text \<open>
  The pod, and the options, that the value-level functions see for a pod and options
  on the store.
\<close>

definition readContainer :: "Store \<Rightarrow> addr Container \<Rightarrow> ResourceList Container" where
  "readContainer \<sigma> c =
     \<lparr>Resources = \<lparr>Limits = readList \<sigma> (Limits (Resources c)),
                    Requests = readList \<sigma> (Requests (Resources c))\<rparr>\<rparr>"

definition readPod :: "Store \<Rightarrow> addr Pod \<Rightarrow> ResourceList Pod" where
  "readPod \<sigma> pod =
     \<lparr>Spec = \<lparr>Containers = map (readContainer \<sigma>) (Containers (Spec pod)),
              InitContainers = map (readContainer \<sigma>) (InitContainers (Spec pod)),
              Overhead = map_option (readList \<sigma>) (Overhead (Spec pod)),
              Priority = Priority (Spec pod)\<rparr>\<rparr>"

definition readOptions ::
  "Store \<Rightarrow> (addr, 's) PodResourcesOptions \<Rightarrow> (ResourceList, 's) PodResourcesOptions" where
  "readOptions \<sigma> opts =
     \<lparr>Reuse = map_option (readList \<sigma>) (Reuse opts),
      ExcludeOverhead = ExcludeOverhead opts,
      ContainerFn = ContainerFn opts\<rparr>"

subsection \<open>Invariants of the loops\<close>

text \<open>
  While the accumulator \<open>acc\<close> is filled, starting in the store \<open>\<sigma>0\<close>: every other
  map is as in \<open>\<sigma>0\<close>, every cell allocated in \<open>\<sigma>0\<close> holds its value, and the cells of
  the accumulator's entries have been allocated since.
\<close>

definition frame :: "addr \<Rightarrow> Store \<Rightarrow> Store \<Rightarrow> bool" where
  "frame acc \<sigma>0 \<sigma> \<longleftrightarrow>
     (\<forall>m. m \<noteq> acc \<longrightarrow> maps \<sigma> m = maps \<sigma>0 m) \<and>
     (\<forall>a. a < next_cell \<sigma>0 \<longrightarrow> cells \<sigma> a = cells \<sigma>0 a) \<and>
     next_cell \<sigma>0 \<le> next_cell \<sigma> \<and>
     (\<forall>a\<in>snd ` set (maps \<sigma> acc). next_cell \<sigma>0 \<le> a \<and> a < next_cell \<sigma>)"

text \<open>
  The accumulator on the store and the value-level accumulator \<open>list\<close> agree, and no
  two entries of the accumulator share a cell.
\<close>

definition sim :: "addr \<Rightarrow> Store \<Rightarrow> Store \<Rightarrow> ResourceList \<Rightarrow> bool" where
  "sim acc \<sigma>0 \<sigma> list \<longleftrightarrow>
     frame acc \<sigma>0 \<sigma> \<and> readList \<sigma> acc = list \<and> distinct (map snd (maps \<sigma> acc))"

text \<open>
  Two runs that fill the same accumulator, one starting in \<open>\<sigma>a0\<close> and one in
  \<open>\<sigma>b0\<close>, agree when the accumulator has the same contents in both and no name
  twice. A map \<open>m\<close> is the same input to both runs when it is the accumulator
  itself, or is allocated in both starting stores with the same contents.
\<close>

definition agree :: "addr \<Rightarrow> Store \<Rightarrow> Store \<Rightarrow> Store \<Rightarrow> Store \<Rightarrow> bool" where
  "agree acc \<sigma>a0 \<sigma>a \<sigma>b0 \<sigma>b \<longleftrightarrow>
     (\<exists>list. sim acc \<sigma>a0 \<sigma>a list \<and> sim acc \<sigma>b0 \<sigma>b list \<and> distinct (map fst list))"

definition same_input :: "addr \<Rightarrow> Store \<Rightarrow> Store \<Rightarrow> addr \<Rightarrow> bool" where
  "same_input acc \<sigma>a0 \<sigma>b0 m \<longleftrightarrow>
     m = acc \<or>
     (\<forall>e\<in>set (maps \<sigma>a0 m). snd e < next_cell \<sigma>a0) \<and>
     (\<forall>e\<in>set (maps \<sigma>b0 m). snd e < next_cell \<sigma>b0) \<and>
     readList \<sigma>a0 m = readList \<sigma>b0 m"

subsection \<open>Example stores\<close>

text \<open>
  A store with the requests of two containers at the maps 0 and 1, an overhead at map
  2, a map 3 with a stale entry to be reused, and an empty map 4 for the limits.
\<close>

definition exampleStore :: Store where
  "exampleStore =
     \<lparr>maps = (\<lambda>_. [])(0 := [(''cpu'', 0)],
                       1 := [(''cpu'', 1), (''memory'', 2)],
                       2 := [(''cpu'', 3)],
                       3 := [(''gpu'', 4)]),
      cells = (\<lambda>_. 0)(0 := 1, 1 := 2, 2 := 1073741824, 3 := 1 / 4, 4 := 7),
      next_map = 5,
      next_cell = 5\<rparr>"

definition examplePodRef :: "addr Pod" where
  "examplePodRef =
     \<lparr>Spec = \<lparr>Containers = [\<lparr>Resources = \<lparr>Limits = 4, Requests = 0\<rparr>\<rparr>,
                              \<lparr>Resources = \<lparr>Limits = 4, Requests = 1\<rparr>\<rparr>],
              InitContainers = [],
              Overhead = Some 2, Priority = None\<rparr>\<rparr>"

definition reuseOptions :: "(addr, unit) PodResourcesOptions" where
  "reuseOptions = \<lparr>Reuse = Some 3, ExcludeOverhead = False, ContainerFn = None\<rparr>"

text \<open>Options whose reuse map is the requests map of the first container.\<close>

definition aliasOptions :: "(addr, unit) PodResourcesOptions" where
  "aliasOptions = \<lparr>Reuse = Some 0, ExcludeOverhead = False, ContainerFn = None\<rparr>"







section \<open>The loops over a resource list\<close>

lemma fold_delete_Nil:
  "fst ` set r \<subseteq> set ks \<Longrightarrow> fold (\<lambda>k r. AList.delete k r) ks r = []"
proof (induction ks arbitrary: r)
  case Nil
  then show ?case by simp
next
  case (Cons k ks)
  have "fst ` set (AList.delete k r) \<subseteq> set ks"
    using Cons.prems by (auto simp: AList.delete_eq)
  then show ?case using Cons.IH by simp
qed

lemma reuseOrClearResourceList_Nil [simp]: "reuseOrClearResourceList reuse = []"
  by (cases reuse) (simp_all add: reuseOrClearResourceList_def fold_delete_Nil)









section \<open>Sums and maxima\<close>

lemma values_of_Nil [simp]: "values_of [] name = []"
  by (simp add: values_of_def map_filter_simps)


lemma values_of_append [simp]:
  "values_of (ls @ ls') name = values_of ls name @ values_of ls' name"
  by (simp add: values_of_def map_filter_def)









section \<open>The results of ComputeRequests and ComputeLimits on values\<close>

lemma fold_pair:
  "fold (\<lambda>c (acc, s). (f c acc, g c s)) cs (acc0, s0) = (fold f cs acc0, fold g cs s0)"
  by (induction cs arbitrary: acc0 s0) simp_all

lemma fst_ComputeRequests:
  "fst (ComputeRequests pod (Some opts) s0) =
     (let reqs = fold (\<lambda>l acc. maxResourceList acc l) (map requestsOf (InitContainers (Spec pod)))
                   (fold (\<lambda>l acc. addResourceList acc l) (map requestsOf (Containers (Spec pod))) [])
      in case Overhead (Spec pod) of
           Some overhead \<Rightarrow> if \<not> ExcludeOverhead opts then addResourceList reqs overhead else reqs
         | None \<Rightarrow> reqs)"
  by (simp add: ComputeRequests_def Let_def fold_pair fold_map comp_def requestsOf_def
           split: option.splits)


lemma fold_no_callback:
  "fold (\<lambda>c s. callContainerFn zero_PodResourcesOptions (f c) t s) cs s = s"
  by (induction cs) (simp_all add: callContainerFn_def zero_PodResourcesOptions_def)

lemma snd_ComputeRequests:
  "snd (ComputeRequests pod (Some opts) s0) =
     fold (\<lambda>c s. callContainerFn opts (Requests (Resources c)) ContainerTypeInitContainers s)
       (InitContainers (Spec pod))
       (fold (\<lambda>c s. callContainerFn opts (Requests (Resources c)) ContainerTypeContainers s)
          (Containers (Spec pod)) s0)"
  by (simp add: ComputeRequests_def Let_def fold_pair split: option.splits)

lemma snd_ComputeLimits:
  "snd (ComputeLimits pod (Some opts) s0) =
     fold (\<lambda>c s. callContainerFn opts (Limits (Resources c)) ContainerTypeInitContainers s)
       (InitContainers (Spec pod))
       (fold (\<lambda>c s. callContainerFn opts (Limits (Resources c)) ContainerTypeContainers s)
          (Containers (Spec pod)) s0)"
  by (simp add: ComputeLimits_def Let_def fold_pair split: option.splits)

lemma ComputeRequests_None: "ComputeRequests pod None s = ComputeRequests pod (Some zero_PodResourcesOptions) s"
  by (simp add: ComputeRequests_def)

lemma ComputeLimits_None: "ComputeLimits pod None s = ComputeLimits pod (Some zero_PodResourcesOptions) s"
  by (simp add: ComputeLimits_def)

lemma ComputeRequests_Reuse:
  "ComputeRequests pod (Some (opts\<lparr>Reuse := r\<rparr>)) s = ComputeRequests pod (Some (opts\<lparr>Reuse := None\<rparr>)) s"
  by (simp add: ComputeRequests_def callContainerFn_def split: option.splits prod.splits)

lemma ComputeLimits_Reuse:
  "ComputeLimits pod (Some (opts\<lparr>Reuse := r\<rparr>)) s = ComputeLimits pod (Some (opts\<lparr>Reuse := None\<rparr>)) s"
  by (simp add: ComputeLimits_def callContainerFn_def split: option.splits prod.splits)






section \<open>Properties of ComputeRequests and ComputeLimits on values\<close>




lemma ComputeRequests_reuse_idempotent:
  "reuseOrClearResourceList (Some reuse) = []
   \<and> (let (first, s') = ComputeRequests pod (Some (opts\<lparr>Reuse := Some reuse\<rparr>)) s;
           (second, s'') = ComputeRequests pod (Some (opts\<lparr>Reuse := Some first\<rparr>)) s'
       in second = first)"
proof -
  obtain first s' where f: "ComputeRequests pod (Some (opts\<lparr>Reuse := Some reuse\<rparr>)) s = (first, s')"
    by (cases "ComputeRequests pod (Some (opts\<lparr>Reuse := Some reuse\<rparr>)) s")
  have "fst (ComputeRequests pod (Some (opts\<lparr>Reuse := Some first\<rparr>)) s') =
        fst (ComputeRequests pod (Some (opts\<lparr>Reuse := Some reuse\<rparr>)) s)"
    by (simp add: fst_ComputeRequests Let_def split: option.splits)
  then show ?thesis
    using f by (simp add: split_def)
qed

lemma Compute_nil_defaults:
  "ComputeRequests pod None s =
     ComputeRequests pod (Some \<lparr>Reuse = None, ExcludeOverhead = False, ContainerFn = None\<rparr>) s
   \<and> ComputeLimits pod None s =
     ComputeLimits pod (Some \<lparr>Reuse = None, ExcludeOverhead = False, ContainerFn = None\<rparr>) s
   \<and> snd (ComputeRequests pod None s) = s
   \<and> snd (ComputeLimits pod None s) = s"
proof -
  have z: "zero_PodResourcesOptions = \<lparr>Reuse = None, ExcludeOverhead = False, ContainerFn = None\<rparr>"
    by (simp add: zero_PodResourcesOptions_def)
  have "snd (ComputeRequests pod None s) = s"
    by (simp add: ComputeRequests_None snd_ComputeRequests fold_no_callback)
  moreover have "snd (ComputeLimits pod None s) = s"
    by (simp add: ComputeLimits_None snd_ComputeLimits fold_no_callback)
  ultimately show ?thesis
    by (simp add: ComputeRequests_None ComputeLimits_None z)
qed


section \<open>Properties of the taint matcher\<close>

lemma TolerationsTolerateTaint_iff:
  "TolerationsTolerateTaint tt tolerations taint \<longleftrightarrow> (\<exists>t\<in>set tolerations. tt t taint)"
  by (induction tolerations) simp_all

lemma getFilteredTaints_fold:
  "fold (\<lambda>taint filteredTaints. if \<not> f taint then filteredTaints else filteredTaints @ [taint])
        taints acc = acc @ filter f taints"
  by (induction taints arbitrary: acc) simp_all

lemma getFilteredTaints_filter:
  "getFilteredTaints taints inclusionFilter =
     filter (case inclusionFilter of None \<Rightarrow> (\<lambda>_. True) | Some f \<Rightarrow> f) taints"
  by (cases inclusionFilter) (simp_all add: getFilteredTaints_def getFilteredTaints_fold)

lemma scanTaints_find:
  "scanTaints tt tolerations taints =
     (case List.find (\<lambda>taint. \<not> TolerationsTolerateTaint tt tolerations taint) taints of
        Some taint \<Rightarrow> (taint, True)
      | None \<Rightarrow> (zero_Taint, False))"
  by (induction taints) simp_all

lemma scanTaints_split:
  "(\<exists>ys t zs. taints = ys @ t # zs
        \<and> (\<forall>y\<in>set ys. TolerationsTolerateTaint tt tolerations y)
        \<and> \<not> TolerationsTolerateTaint tt tolerations t
        \<and> scanTaints tt tolerations taints = (t, True))
   \<or> ((\<forall>y\<in>set taints. TolerationsTolerateTaint tt tolerations y)
        \<and> scanTaints tt tolerations taints = (zero_Taint, False))"
proof (induction taints)
  case Nil
  then show ?case by simp
next
  case (Cons x taints)
  show ?case
  proof (cases "TolerationsTolerateTaint tt tolerations x")
    case False
    then have "x # taints = [] @ x # taints \<and> (\<forall>y\<in>set []. TolerationsTolerateTaint tt tolerations y)
        \<and> \<not> TolerationsTolerateTaint tt tolerations x
        \<and> scanTaints tt tolerations (x # taints) = (x, True)" by simp
    then show ?thesis by blast
  next
    case True
    from Cons.IH show ?thesis
    proof
      assume "\<exists>ys t zs. taints = ys @ t # zs
        \<and> (\<forall>y\<in>set ys. TolerationsTolerateTaint tt tolerations y)
        \<and> \<not> TolerationsTolerateTaint tt tolerations t
        \<and> scanTaints tt tolerations taints = (t, True)"
      then obtain ys t zs where "taints = ys @ t # zs"
        "\<forall>y\<in>set ys. TolerationsTolerateTaint tt tolerations y"
        "\<not> TolerationsTolerateTaint tt tolerations t"
        "scanTaints tt tolerations taints = (t, True)" by blast
      with True have "x # taints = (x # ys) @ t # zs
        \<and> (\<forall>y\<in>set (x # ys). TolerationsTolerateTaint tt tolerations y)
        \<and> \<not> TolerationsTolerateTaint tt tolerations t
        \<and> scanTaints tt tolerations (x # taints) = (t, True)" by simp
      then show ?thesis by blast
    next
      assume "(\<forall>y\<in>set taints. TolerationsTolerateTaint tt tolerations y)
        \<and> scanTaints tt tolerations taints = (zero_Taint, False)"
      with True show ?thesis by simp
    qed
  qed
qed

text \<open>
  C5. TolerationsTolerateTaint is true if and only if some toleration of the list
  tolerates the taint; it is false on the empty list for every taint, and its result
  is the same for every permutation of the toleration list.
\<close>

theorem TolerationsTolerateTaint_iff_some_toleration:
  "(TolerationsTolerateTaint ToleratesTaint tolerations taint \<longleftrightarrow>
      (\<exists>t\<in>set tolerations. ToleratesTaint t taint))
   \<and> \<not> TolerationsTolerateTaint ToleratesTaint [] taint
   \<and> (mset tolerations' = mset tolerations \<longrightarrow>
        TolerationsTolerateTaint ToleratesTaint tolerations' taint =
        TolerationsTolerateTaint ToleratesTaint tolerations taint)"
proof -
  have "set tolerations' = set tolerations" if "mset tolerations' = mset tolerations"
    using that by (rule mset_eq_setD)
  then show ?thesis
    by (simp add: TolerationsTolerateTaint_iff)
qed

theorem TolerationsTolerateTaint_iff_some_toleration_witness:
  "mset [tolerationB, tolerationC] = mset [tolerationC, tolerationB]
   \<and> TolerationsTolerateTaint sampleToleratesTaint [tolerationC, tolerationB] taintB
   \<and> TolerationsTolerateTaint sampleToleratesTaint [tolerationB, tolerationC] taintB
   \<and> (\<exists>t\<in>set [tolerationC, tolerationB]. sampleToleratesTaint t taintB)
   \<and> \<not> TolerationsTolerateTaint sampleToleratesTaint [tolerationC, tolerationB] taintA
   \<and> \<not> (\<exists>t\<in>set [tolerationC, tolerationB]. sampleToleratesTaint t taintA)
   \<and> \<not> TolerationsTolerateTaint sampleToleratesTaint [] taintB"
proof -
  have p: "mset [tolerationB, tolerationC] = mset [tolerationC, tolerationB]" by simp
  have e: "sampleToleratesTaint tolerationB taintB" "\<not> sampleToleratesTaint tolerationC taintB"
    "\<not> sampleToleratesTaint tolerationB taintA" "\<not> sampleToleratesTaint tolerationC taintA"
    by (simp_all add: sampleToleratesTaint_def tolerationB_def tolerationC_def taintA_def taintB_def)
  show ?thesis
    using p
      TolerationsTolerateTaint_iff_some_toleration
        [of sampleToleratesTaint "[tolerationC, tolerationB]" taintB "[tolerationB, tolerationC]"]
      TolerationsTolerateTaint_iff_some_toleration
        [of sampleToleratesTaint "[tolerationC, tolerationB]" taintA "[tolerationB, tolerationC]"]
    by (simp add: e)
qed

text \<open>
  C4. FindMatchingUntoleratedTaint restricts the taints to those that the filter
  accepts (a nil filter keeps all of them), and returns the first of these, in the
  original order, that the tolerations do not tolerate, together with true; when every
  filtered taint is tolerated, or none is left, it returns the zero taint and false.
\<close>

theorem FindMatchingUntoleratedTaint_first_untolerated:
  "FindMatchingUntoleratedTaint ToleratesTaint taints tolerations inclusionFilter =
     (case List.find (\<lambda>taint. \<not> TolerationsTolerateTaint ToleratesTaint tolerations taint)
             (filter (case inclusionFilter of None \<Rightarrow> (\<lambda>_. True) | Some f \<Rightarrow> f) taints) of
        Some taint \<Rightarrow> (taint, True)
      | None \<Rightarrow> (zero_Taint, False))
   \<and> ((\<exists>ys t zs.
          filter (case inclusionFilter of None \<Rightarrow> (\<lambda>_. True) | Some f \<Rightarrow> f) taints = ys @ t # zs
          \<and> (\<forall>y\<in>set ys. TolerationsTolerateTaint ToleratesTaint tolerations y)
          \<and> \<not> TolerationsTolerateTaint ToleratesTaint tolerations t
          \<and> FindMatchingUntoleratedTaint ToleratesTaint taints tolerations inclusionFilter
              = (t, True))
       \<or> ((\<forall>y\<in>set (filter (case inclusionFilter of None \<Rightarrow> (\<lambda>_. True) | Some f \<Rightarrow> f) taints).
              TolerationsTolerateTaint ToleratesTaint tolerations y)
          \<and> FindMatchingUntoleratedTaint ToleratesTaint taints tolerations inclusionFilter
              = (zero_Taint, False)))"
  unfolding FindMatchingUntoleratedTaint_def getFilteredTaints_filter
  using scanTaints_split[of "filter (case inclusionFilter of None \<Rightarrow> (\<lambda>_. True) | Some f \<Rightarrow> f) taints"
      ToleratesTaint tolerations]
  by (simp only: scanTaints_find simp_thms)

theorem FindMatchingUntoleratedTaint_first_untolerated_witness:
  "FindMatchingUntoleratedTaint sampleToleratesTaint [taintA, taintB] [tolerationB] None
     = (taintA, True)
   \<and> FindMatchingUntoleratedTaint sampleToleratesTaint [taintA, taintB] [tolerationB]
       (Some onlyNoExecute) = (zero_Taint, False)
   \<and> FindMatchingUntoleratedTaint sampleToleratesTaint [taintB, taintA, taintA] [tolerationB] None
     = (taintA, True)
   \<and> FindMatchingUntoleratedTaint sampleToleratesTaint [] [tolerationB] None
     = (zero_Taint, False)"
proof -
  have e: "sampleToleratesTaint tolerationB taintB" "\<not> sampleToleratesTaint tolerationB taintA"
    "onlyNoExecute taintB" "\<not> onlyNoExecute taintA"
    by (simp_all add: sampleToleratesTaint_def tolerationB_def taintA_def taintB_def
          onlyNoExecute_def)
  show ?thesis
    using
      FindMatchingUntoleratedTaint_first_untolerated
        [of sampleToleratesTaint "[taintA, taintB]" "[tolerationB]" None]
      FindMatchingUntoleratedTaint_first_untolerated
        [of sampleToleratesTaint "[taintA, taintB]" "[tolerationB]" "Some onlyNoExecute"]
      FindMatchingUntoleratedTaint_first_untolerated
        [of sampleToleratesTaint "[taintB, taintA, taintA]" "[tolerationB]" None]
      FindMatchingUntoleratedTaint_first_untolerated
        [of sampleToleratesTaint "[]" "[tolerationB]" None]
    by (simp add: e)
qed

section \<open>Properties on the store\<close>

subsection \<open>The frame of a call\<close>

lemma snd_set_update:
  "a \<in> snd ` set (AList.update k v al) \<Longrightarrow> a = v \<or> a \<in> snd ` set al"
  by (induction al) (auto split: if_splits)

lemma map_of_snd: "map_of al k = Some v \<Longrightarrow> v \<in> snd ` set al"
  by (auto dest!: map_of_SomeD intro: rev_image_eqI)

lemma frameI:
  assumes "\<And>m. m \<noteq> acc \<Longrightarrow> maps \<sigma> m = maps \<sigma>0 m"
    and "\<And>a. a < next_cell \<sigma>0 \<Longrightarrow> cells \<sigma> a = cells \<sigma>0 a"
    and "next_cell \<sigma>0 \<le> next_cell \<sigma>"
    and "\<And>a. a \<in> snd ` set (maps \<sigma> acc) \<Longrightarrow> next_cell \<sigma>0 \<le> a \<and> a < next_cell \<sigma>"
  shows "frame acc \<sigma>0 \<sigma>"
  using assms unfolding frame_def by blast

lemma frameD:
  assumes "frame acc \<sigma>0 \<sigma>"
  shows "m \<noteq> acc \<Longrightarrow> maps \<sigma> m = maps \<sigma>0 m"
    and "a < next_cell \<sigma>0 \<Longrightarrow> cells \<sigma> a = cells \<sigma>0 a"
    and "next_cell \<sigma>0 \<le> next_cell \<sigma>"
    and "b \<in> snd ` set (maps \<sigma> acc) \<Longrightarrow> next_cell \<sigma>0 \<le> b \<and> b < next_cell \<sigma>"
  using assms unfolding frame_def by blast+

lemma frame_copy:
  assumes "frame acc \<sigma>0 \<sigma>"
  shows "frame acc \<sigma>0 (let (copy, \<sigma>) = DeepCopy_store quantity \<sigma> in assign acc name copy \<sigma>)"
proof -
  let ?\<sigma>' = "\<sigma>\<lparr>cells := (cells \<sigma>)(next_cell \<sigma> := DeepCopy (cells \<sigma> quantity)),
               next_cell := Suc (next_cell \<sigma>),
               maps := (maps \<sigma>)(acc := AList.update name (next_cell \<sigma>) (maps \<sigma> acc))\<rparr>"
  have eq: "(let (copy, \<sigma>) = DeepCopy_store quantity \<sigma> in assign acc name copy \<sigma>) = ?\<sigma>'"
    by (simp add: DeepCopy_store_def assign_def)
  have "frame acc \<sigma>0 ?\<sigma>'"
  proof (rule frameI)
    fix m assume "m \<noteq> acc"
    then show "maps ?\<sigma>' m = maps \<sigma>0 m" using frameD(1)[OF assms] by simp
  next
    fix a assume "a < next_cell \<sigma>0"
    then show "cells ?\<sigma>' a = cells \<sigma>0 a"
      using frameD(2)[OF assms, of a] frameD(3)[OF assms] by simp
  next
    show "next_cell \<sigma>0 \<le> next_cell ?\<sigma>'" using frameD(3)[OF assms] by simp
  next
    fix a assume "a \<in> snd ` set (maps ?\<sigma>' acc)"
    then have "a \<in> snd ` set (AList.update name (next_cell \<sigma>) (maps \<sigma> acc))" by simp
    then have "a = next_cell \<sigma> \<or> a \<in> snd ` set (maps \<sigma> acc)" by (rule snd_set_update)
    then show "next_cell \<sigma>0 \<le> a \<and> a < next_cell ?\<sigma>'"
    proof
      assume "a = next_cell \<sigma>"
      then show ?thesis using frameD(3)[OF assms] by simp
    next
      assume "a \<in> snd ` set (maps \<sigma> acc)"
      from frameD(4)[OF assms this] show ?thesis by simp
    qed
  qed
  then show ?thesis by (simp only: eq)
qed

lemma frame_add:
  assumes "frame acc \<sigma>0 \<sigma>" and "map_of (maps \<sigma> acc) name = Some value"
  shows "frame acc \<sigma>0 (assign acc name value (Add_store value quantity \<sigma>))"
proof -
  let ?\<sigma>' = "\<sigma>\<lparr>cells := (cells \<sigma>)(value := Add (cells \<sigma> value) (cells \<sigma> quantity)),
               maps := (maps \<sigma>)(acc := AList.update name value (maps \<sigma> acc))\<rparr>"
  have eq: "assign acc name value (Add_store value quantity \<sigma>) = ?\<sigma>'"
    by (simp add: Add_store_def assign_def)
  from assms(2) have v: "value \<in> snd ` set (maps \<sigma> acc)" by (rule map_of_snd)
  have "frame acc \<sigma>0 ?\<sigma>'"
  proof (rule frameI)
    fix m assume "m \<noteq> acc"
    then show "maps ?\<sigma>' m = maps \<sigma>0 m" using frameD(1)[OF assms(1)] by simp
  next
    fix a assume "a < next_cell \<sigma>0"
    then show "cells ?\<sigma>' a = cells \<sigma>0 a"
      using frameD(2)[OF assms(1), of a] frameD(4)[OF assms(1) v] by simp
  next
    show "next_cell \<sigma>0 \<le> next_cell ?\<sigma>'" using frameD(3)[OF assms(1)] by simp
  next
    fix a assume "a \<in> snd ` set (maps ?\<sigma>' acc)"
    then have "a \<in> snd ` set (AList.update name value (maps \<sigma> acc))" by simp
    then have "a = value \<or> a \<in> snd ` set (maps \<sigma> acc)" by (rule snd_set_update)
    then show "next_cell \<sigma>0 \<le> a \<and> a < next_cell ?\<sigma>'"
      using v frameD(4)[OF assms(1), of a] by auto
  qed
  then show ?thesis by (simp only: eq)
qed

lemma frame_add_loop:
  "frame acc \<sigma>0 \<sigma> \<Longrightarrow>
   frame acc \<sigma>0
     (fold (\<lambda>(name, quantity) \<sigma>.
             case map_of (maps \<sigma> acc) name of
               None \<Rightarrow>
                 (let (copy, \<sigma>) = DeepCopy_store quantity \<sigma> in assign acc name copy \<sigma>)
             | Some value \<Rightarrow> assign acc name value (Add_store value quantity \<sigma>))
          entries \<sigma>)"
proof (induction entries arbitrary: \<sigma>)
  case Nil
  then show ?case by simp
next
  case (Cons e entries)
  obtain n q where e: "e = (n, q)" by (cases e)
  show ?case
  proof (cases "map_of (maps \<sigma> acc) n")
    case None
    then show ?thesis
      using Cons.IH[OF frame_copy[OF Cons.prems, of q n]] by (simp add: e)
  next
    case (Some v)
    then show ?thesis
      using Cons.IH[OF frame_add[OF Cons.prems Some, of q]] by (simp add: e)
  qed
qed

lemma frame_max_loop:
  "frame acc \<sigma>0 \<sigma> \<Longrightarrow>
   frame acc \<sigma>0
     (fold (\<lambda>(name, quantity) \<sigma>.
             case map_of (maps \<sigma> acc) name of
               None \<Rightarrow>
                 (let (copy, \<sigma>) = DeepCopy_store quantity \<sigma> in assign acc name copy \<sigma>)
             | Some value \<Rightarrow>
                 if Cmp (cells \<sigma> quantity) (cells \<sigma> value) > 0
                 then (let (copy, \<sigma>) = DeepCopy_store quantity \<sigma> in assign acc name copy \<sigma>)
                 else \<sigma>)
          entries \<sigma>)"
proof (induction entries arbitrary: \<sigma>)
  case Nil
  then show ?case by simp
next
  case (Cons e entries)
  obtain n q where e: "e = (n, q)" by (cases e)
  show ?case
  proof (cases "map_of (maps \<sigma> acc) n")
    case None
    then show ?thesis
      using Cons.IH[OF frame_copy[OF Cons.prems, of q n]] by (simp add: e)
  next
    case (Some v)
    show ?thesis
    proof (cases "Cmp (cells \<sigma> q) (cells \<sigma> v) > 0")
      case True
      then show ?thesis
        using Some Cons.IH[OF frame_copy[OF Cons.prems, of q n]] by (simp add: e)
    next
      case False
      then show ?thesis
        using Some Cons.IH[OF Cons.prems] by (simp add: e)
    qed
  qed
qed

lemma frame_overhead_loop:
  "frame acc \<sigma>0 \<sigma> \<Longrightarrow>
   frame acc \<sigma>0
     (fold (\<lambda>(name, quantity) \<sigma>.
              case map_of (maps \<sigma> acc) name of
                Some value \<Rightarrow>
                  if \<not> IsZero (cells \<sigma> value)
                  then assign acc name value (Add_store value quantity \<sigma>)
                  else \<sigma>
              | None \<Rightarrow> \<sigma>)
          entries \<sigma>)"
proof (induction entries arbitrary: \<sigma>)
  case Nil
  then show ?case by simp
next
  case (Cons e entries)
  obtain n q where e: "e = (n, q)" by (cases e)
  show ?case
  proof (cases "map_of (maps \<sigma> acc) n")
    case None
    then show ?thesis
      using Cons.IH[OF Cons.prems] by (simp add: e)
  next
    case (Some v)
    show ?thesis
    proof (cases "IsZero (cells \<sigma> v)")
      case False
      then show ?thesis
        using Some Cons.IH[OF frame_add[OF Cons.prems Some, of q]] by (simp add: e)
    next
      case True
      then show ?thesis
        using Some Cons.IH[OF Cons.prems] by (simp add: e)
    qed
  qed
qed

lemma frame_addResourceList_store:
  "frame acc \<sigma>0 \<sigma> \<Longrightarrow> frame acc \<sigma>0 (addResourceList_store acc newList \<sigma>)"
  unfolding addResourceList_store_def by (rule frame_add_loop)

lemma frame_maxResourceList_store:
  "frame acc \<sigma>0 \<sigma> \<Longrightarrow> frame acc \<sigma>0 (maxResourceList_store acc newList \<sigma>)"
  unfolding maxResourceList_store_def by (rule frame_max_loop)

lemma clear_loop:
  "maps (fold (\<lambda>k \<sigma>. \<sigma>\<lparr>maps := (maps \<sigma>)(r := AList.delete k (maps \<sigma> r))\<rparr>) ks \<sigma>) =
     (maps \<sigma>)(r := fold (\<lambda>k l. AList.delete k l) ks (maps \<sigma> r))
   \<and> cells (fold (\<lambda>k \<sigma>. \<sigma>\<lparr>maps := (maps \<sigma>)(r := AList.delete k (maps \<sigma> r))\<rparr>) ks \<sigma>) = cells \<sigma>
   \<and> next_cell (fold (\<lambda>k \<sigma>. \<sigma>\<lparr>maps := (maps \<sigma>)(r := AList.delete k (maps \<sigma> r))\<rparr>) ks \<sigma>)
       = next_cell \<sigma>
   \<and> next_map (fold (\<lambda>k \<sigma>. \<sigma>\<lparr>maps := (maps \<sigma>)(r := AList.delete k (maps \<sigma> r))\<rparr>) ks \<sigma>)
       = next_map \<sigma>"
  by (induction ks arbitrary: \<sigma>) simp_all

lemma frame_reuseOrClear:
  "reuseOrClearResourceList_store reuse \<sigma>0 = (acc, \<sigma>) \<Longrightarrow>
   frame acc \<sigma>0 \<sigma> \<and> acc = (case reuse of None \<Rightarrow> next_map \<sigma>0 | Some r \<Rightarrow> r)"
proof (cases reuse)
  case None
  assume "reuseOrClearResourceList_store reuse \<sigma>0 = (acc, \<sigma>)"
  with None show ?thesis
    by (auto simp: reuseOrClearResourceList_store_def frame_def)
next
  case (Some r)
  assume a: "reuseOrClearResourceList_store reuse \<sigma>0 = (acc, \<sigma>)"
  have "fold (\<lambda>k l. AList.delete k l) (map fst (maps \<sigma>0 r)) (maps \<sigma>0 r) = []"
    by (rule fold_delete_Nil) simp
  with a Some show ?thesis
    using clear_loop[of r "map fst (maps \<sigma>0 r)" \<sigma>0]
    by (auto simp: reuseOrClearResourceList_store_def frame_def)
qed

lemma frame_fold_pair:
  assumes step: "\<And>c \<sigma>. frame acc \<sigma>0 \<sigma> \<Longrightarrow> frame acc \<sigma>0 (f c \<sigma>)"
    and "frame acc \<sigma>0 (fst st)"
  shows "frame acc \<sigma>0 (fst (fold (\<lambda>c p. (f c (fst p), g c (fst p) (snd p))) cs st))"
  using assms(2)
proof (induction cs arbitrary: st)
  case Nil
  then show ?case by simp
next
  case (Cons c cs)
  have "frame acc \<sigma>0 (fst (f c (fst st), g c (fst st) (snd st)))"
    using step[OF Cons.prems] by simp
  from Cons.IH[OF this] show ?case by simp
qed

lemma frame_reuseOrClear_fst_snd:
  "frame (fst (reuseOrClearResourceList_store reuse \<sigma>0)) \<sigma>0
         (snd (reuseOrClearResourceList_store reuse \<sigma>0))"
  using frame_reuseOrClear[of reuse \<sigma>0] by (cases "reuseOrClearResourceList_store reuse \<sigma>0") simp

lemma fst_reuseOrClear:
  "fst (reuseOrClearResourceList_store reuse \<sigma>0) =
     (case reuse of None \<Rightarrow> next_map \<sigma>0 | Some r \<Rightarrow> r)"
  by (simp add: reuseOrClearResourceList_store_def split: option.splits)

lemma frame_PodRequests_store:
  "frame (fst (PodRequests_store pod opts0 (\<sigma>0, s0))) \<sigma>0
         (fst (snd (PodRequests_store pod opts0 (\<sigma>0, s0))))"
proof -
  define opts where "opts = (case opts0 of None \<Rightarrow> zero_PodResourcesOptions | Some opts \<Rightarrow> opts)"
  define acc where "acc = fst (reuseOrClearResourceList_store (Reuse opts) \<sigma>0)"
  define st1 where "st1 = (snd (reuseOrClearResourceList_store (Reuse opts) \<sigma>0), s0)"
  define st2 where "st2 =
            fold (\<lambda>container p.
                    (addResourceList_store acc (Requests (Resources container)) (fst p),
                     callContainerFn opts (readList (fst p) (Requests (Resources container)))
                              ContainerTypeContainers (snd p)))
                 (Containers (Spec pod)) st1"
  define st3 where "st3 =
            fold (\<lambda>container p.
                    (maxResourceList_store acc (Requests (Resources container)) (fst p),
                     callContainerFn opts (readList (fst p) (Requests (Resources container)))
                              ContainerTypeInitContainers (snd p)))
                 (InitContainers (Spec pod)) st2"
  have f1: "frame acc \<sigma>0 (fst st1)"
    unfolding acc_def st1_def by (simp add: frame_reuseOrClear_fst_snd)
  have f2: "frame acc \<sigma>0 (fst st2)"
    unfolding st2_def by (rule frame_fold_pair[OF frame_addResourceList_store f1])
  have f3: "frame acc \<sigma>0 (fst st3)"
    unfolding st3_def by (rule frame_fold_pair[OF frame_maxResourceList_store f2])
  have eq: "PodRequests_store pod opts0 (\<sigma>0, s0) =
          (acc,
           (case Overhead (Spec pod) of
               Some overhead \<Rightarrow>
                 if \<not> ExcludeOverhead opts then addResourceList_store acc overhead (fst st3)
                 else fst st3
             | None \<Rightarrow> fst st3),
           snd st3)"
    unfolding PodRequests_store_def st3_def st2_def st1_def acc_def opts_def
    by (simp add: Let_def split_def split: option.splits)
  show ?thesis
    unfolding eq using f3 by (auto split: option.splits intro: frame_addResourceList_store)
qed

lemma frame_PodLimits_store:
  "frame (fst (PodLimits_store pod opts0 (\<sigma>0, s0))) \<sigma>0
         (fst (snd (PodLimits_store pod opts0 (\<sigma>0, s0))))"
proof -
  define opts where "opts = (case opts0 of None \<Rightarrow> zero_PodResourcesOptions | Some opts \<Rightarrow> opts)"
  define acc where "acc = fst (reuseOrClearResourceList_store (Reuse opts) \<sigma>0)"
  define st1 where "st1 = (snd (reuseOrClearResourceList_store (Reuse opts) \<sigma>0), s0)"
  define st2 where "st2 =
            fold (\<lambda>container p.
                    (addResourceList_store acc (Limits (Resources container)) (fst p),
                     callContainerFn opts (readList (fst p) (Limits (Resources container)))
                              ContainerTypeContainers (snd p)))
                 (Containers (Spec pod)) st1"
  define st3 where "st3 =
            fold (\<lambda>container p.
                    (maxResourceList_store acc (Limits (Resources container)) (fst p),
                     callContainerFn opts (readList (fst p) (Limits (Resources container)))
                              ContainerTypeInitContainers (snd p)))
                 (InitContainers (Spec pod)) st2"
  have f1: "frame acc \<sigma>0 (fst st1)"
    unfolding acc_def st1_def by (simp add: frame_reuseOrClear_fst_snd)
  have f2: "frame acc \<sigma>0 (fst st2)"
    unfolding st2_def by (rule frame_fold_pair[OF frame_addResourceList_store f1])
  have f3: "frame acc \<sigma>0 (fst st3)"
    unfolding st3_def by (rule frame_fold_pair[OF frame_maxResourceList_store f2])
  have eq: "PodLimits_store pod opts0 (\<sigma>0, s0) =
          (acc,
           (case Overhead (Spec pod) of
               Some overhead \<Rightarrow>
                 if \<not> ExcludeOverhead opts then
                   fold (\<lambda>(name, quantity) \<sigma>.
                           case map_of (maps \<sigma> acc) name of
                             Some value \<Rightarrow>
                               if \<not> IsZero (cells \<sigma> value)
                               then assign acc name value (Add_store value quantity \<sigma>)
                               else \<sigma>
                           | None \<Rightarrow> \<sigma>)
                        (maps (fst st3) overhead) (fst st3)
                 else fst st3
             | None \<Rightarrow> fst st3),
           snd st3)"
    unfolding PodLimits_store_def st3_def st2_def st1_def acc_def opts_def
    by (simp add: Let_def split_def split: option.splits)
  show ?thesis
    unfolding eq using f3 by (auto split: option.splits intro: frame_overhead_loop)
qed

lemma fst_PodRequests_store:
  "fst (PodRequests_store pod opts0 (\<sigma>0, s0)) =
     (case Reuse (case opts0 of None \<Rightarrow> zero_PodResourcesOptions | Some opts \<Rightarrow> opts) of
        None \<Rightarrow> next_map \<sigma>0 | Some r \<Rightarrow> r)"
  by (simp add: PodRequests_store_def Let_def split_def fst_reuseOrClear)

lemma fst_PodLimits_store:
  "fst (PodLimits_store pod opts0 (\<sigma>0, s0)) =
     (case Reuse (case opts0 of None \<Rightarrow> zero_PodResourcesOptions | Some opts \<Rightarrow> opts) of
        None \<Rightarrow> next_map \<sigma>0 | Some r \<Rightarrow> r)"
  by (simp add: PodLimits_store_def Let_def split_def fst_reuseOrClear)

lemma frame_readList:
  assumes fr: "frame acc \<sigma>0 \<sigma>" and ne: "m \<noteq> acc"
    and al: "\<forall>e\<in>set (maps \<sigma>0 m). snd e < next_cell \<sigma>0"
  shows "readList \<sigma> m = readList \<sigma>0 m"
proof -
  have "map (\<lambda>(name, a). (name, cells \<sigma> a)) (maps \<sigma>0 m) =
        map (\<lambda>(name, a). (name, cells \<sigma>0 a)) (maps \<sigma>0 m)"
  proof (rule map_cong[OF refl])
    fix e assume "e \<in> set (maps \<sigma>0 m)"
    with al have "snd e < next_cell \<sigma>0" by simp
    from frameD(2)[OF fr this] show "(case e of (name, a) \<Rightarrow> (name, cells \<sigma> a)) =
          (case e of (name, a) \<Rightarrow> (name, cells \<sigma>0 a))"
      by (cases e) simp
  qed
  then show ?thesis using frameD(1)[OF fr ne] by (simp add: readList_def)
qed

lemma frame_isolates:
  assumes fr: "frame acc \<sigma> \<sigma>'"
    and ne: "m \<noteq> acc"
    and al: "\<And>a. a \<in> snd ` set (maps \<sigma> m) \<Longrightarrow> a < next_cell \<sigma>"
  shows "input_isolated \<sigma> m v (acc, \<sigma>', s')"
proof -
  have mp: "maps \<sigma>' m = maps \<sigma> m" using frameD(1)[OF fr ne] .
  have rd: "map (\<lambda>(name, a). (name, c a)) (maps \<sigma> m) = readList \<sigma> m"
    if "\<And>a. a < next_cell \<sigma> \<Longrightarrow> c a = cells \<sigma> a" for c
    unfolding readList_def
  proof (rule map_cong[OF refl])
    fix e assume "e \<in> set (maps \<sigma> m)"
    then have "snd e \<in> snd ` set (maps \<sigma> m)" by (rule imageI)
    from that[OF al[OF this]] show "(case e of (name, a) \<Rightarrow> (name, c a)) =
          (case e of (name, a) \<Rightarrow> (name, cells \<sigma> a))"
      by (cases e) simp
  qed
  have r1: "readList \<sigma>' m = readList \<sigma> m"
    using rd[of "cells \<sigma>'"] frameD(2)[OF fr] by (simp add: readList_def mp)
  have r2: "a \<notin> snd ` set (maps \<sigma> m)
            \<and> readList (\<sigma>'\<lparr>cells := (cells \<sigma>')(a := v)\<rparr>) m = readList \<sigma> m"
    if a: "a \<in> snd ` set (maps \<sigma>' acc)" for a
  proof -
    from frameD(4)[OF fr a] have ge: "next_cell \<sigma> \<le> a" by simp
    then have "a \<notin> snd ` set (maps \<sigma> m)" using al[of a] by auto
    moreover have "readList (\<sigma>'\<lparr>cells := (cells \<sigma>')(a := v)\<rparr>) m = readList \<sigma> m"
      using rd[of "(cells \<sigma>')(a := v)"] frameD(2)[OF fr] ge by (simp add: readList_def mp)
    ultimately show ?thesis by simp
  qed
  show ?thesis
    unfolding input_isolated_def using mp r1 r2 by simp
qed

lemma input_ne_acc:
  assumes "inputs_allocated \<sigma> pod" and "reuse_separate pod opts0" and "m \<in> set (podRefs pod)"
  shows "m \<noteq> (case Reuse (case opts0 of None \<Rightarrow> zero_PodResourcesOptions | Some opts \<Rightarrow> opts) of
                 None \<Rightarrow> next_map \<sigma> | Some r \<Rightarrow> r)"
proof -
  from assms(1,3) have "m < next_map \<sigma>"
    by (auto simp: inputs_allocated_def list_all_iff)
  with assms(2,3) show ?thesis
    by (auto simp: reuse_separate_def zero_PodResourcesOptions_def split: option.splits)
qed

lemma input_cells_allocated:
  assumes "inputs_allocated \<sigma> pod" and "m \<in> set (podRefs pod)"
    and "a \<in> snd ` set (maps \<sigma> m)"
  shows "a < next_cell \<sigma>"
  using assms by (force simp: inputs_allocated_def list_all_iff)

lemma input_entries_allocated:
  assumes "inputs_allocated \<sigma> pod" and "m \<in> set (podRefs pod)"
  shows "\<forall>e\<in>set (maps \<sigma> m). snd e < next_cell \<sigma>"
  using input_cells_allocated[OF assms] by auto

lemma podRefs_container:
  "c \<in> set (Containers (Spec pod)) \<union> set (InitContainers (Spec pod)) \<Longrightarrow>
   Requests (Resources c) \<in> set (podRefs pod) \<and> Limits (Resources c) \<in> set (podRefs pod)"
  by (auto simp: podRefs_def)

lemma podRefs_overhead:
  "Overhead (Spec pod) = Some overhead \<Longrightarrow> overhead \<in> set (podRefs pod)"
  by (simp add: podRefs_def)

subsection \<open>The reuse map on the store\<close>

lemma reuseOrClear_store_Some:
  "reuseOrClearResourceList_store (Some r) (\<sigma>\<lparr>maps := (maps \<sigma>)(r := l)\<rparr>) =
     (r, \<sigma>\<lparr>maps := (maps \<sigma>)(r := [])\<rparr>)"
proof -
  let ?\<sigma> = "\<sigma>\<lparr>maps := (maps \<sigma>)(r := l)\<rparr>"
  let ?\<sigma>' = "fold (\<lambda>k \<sigma>. \<sigma>\<lparr>maps := (maps \<sigma>)(r := AList.delete k (maps \<sigma> r))\<rparr>) (map fst l) ?\<sigma>"
  have e: "fold (\<lambda>k l. AList.delete k l) (map fst l) l = []"
    by (rule fold_delete_Nil) simp
  from clear_loop[of r "map fst l" ?\<sigma>] e
  have "maps ?\<sigma>' = (maps \<sigma>)(r := [])" "cells ?\<sigma>' = cells \<sigma>"
    "next_cell ?\<sigma>' = next_cell \<sigma>" "next_map ?\<sigma>' = next_map \<sigma>"
    by simp_all
  then have "?\<sigma>' = \<sigma>\<lparr>maps := (maps \<sigma>)(r := [])\<rparr>" by simp
  then show ?thesis by (simp add: reuseOrClearResourceList_store_def)
qed

lemma PodRequests_store_cong:
  "reuseOrClearResourceList_store (Reuse opts) \<sigma>1 = reuseOrClearResourceList_store (Reuse opts) \<sigma>2
   \<Longrightarrow> PodRequests_store pod (Some opts) (\<sigma>1, s) = PodRequests_store pod (Some opts) (\<sigma>2, s)"
  by (simp add: PodRequests_store_def)

lemma PodLimits_store_cong:
  "reuseOrClearResourceList_store (Reuse opts) \<sigma>1 = reuseOrClearResourceList_store (Reuse opts) \<sigma>2
   \<Longrightarrow> PodLimits_store pod (Some opts) (\<sigma>1, s) = PodLimits_store pod (Some opts) (\<sigma>2, s)"
  by (simp add: PodLimits_store_def)

lemma reuseOrClear_store_entries:
  "reuseOrClearResourceList_store (Reuse (opts\<lparr>Reuse := Some r\<rparr>)) (\<sigma>\<lparr>maps := (maps \<sigma>)(r := l1)\<rparr>) =
   reuseOrClearResourceList_store (Reuse (opts\<lparr>Reuse := Some r\<rparr>)) (\<sigma>\<lparr>maps := (maps \<sigma>)(r := l2)\<rparr>)"
  by (simp add: reuseOrClear_store_Some)

text \<open>
  C10. The results of PodRequests and PodLimits do not depend on what the reuse map
  held before the call: two calls that differ only in those entries return equal
  results. That holds for the values computed and, on the store, for two stores that
  differ only in the entries of the reuse map, whether or not that map is also one of
  the pod's own.
\<close>

theorem result_independent_of_reuse_contents:
  "ComputeRequests pod (Some (opts\<lparr>Reuse := Some reuse1\<rparr>)) s =
     ComputeRequests pod (Some (opts\<lparr>Reuse := Some reuse2\<rparr>)) s
   \<and> ComputeLimits pod (Some (opts\<lparr>Reuse := Some reuse1\<rparr>)) s =
     ComputeLimits pod (Some (opts\<lparr>Reuse := Some reuse2\<rparr>)) s
   \<and> PodRequests_store podRef (Some (optsRef\<lparr>Reuse := Some r\<rparr>))
         (\<sigma>\<lparr>maps := (maps \<sigma>)(r := entries1)\<rparr>, s) =
     PodRequests_store podRef (Some (optsRef\<lparr>Reuse := Some r\<rparr>))
         (\<sigma>\<lparr>maps := (maps \<sigma>)(r := entries2)\<rparr>, s)
   \<and> PodLimits_store podRef (Some (optsRef\<lparr>Reuse := Some r\<rparr>))
         (\<sigma>\<lparr>maps := (maps \<sigma>)(r := entries1)\<rparr>, s) =
     PodLimits_store podRef (Some (optsRef\<lparr>Reuse := Some r\<rparr>))
         (\<sigma>\<lparr>maps := (maps \<sigma>)(r := entries2)\<rparr>, s)"
proof -
  have "ComputeRequests pod (Some (opts\<lparr>Reuse := Some reuse1\<rparr>)) s =
        ComputeRequests pod (Some (opts\<lparr>Reuse := None\<rparr>)) s"
    by (rule ComputeRequests_Reuse)
  moreover have "ComputeRequests pod (Some (opts\<lparr>Reuse := Some reuse2\<rparr>)) s =
        ComputeRequests pod (Some (opts\<lparr>Reuse := None\<rparr>)) s"
    by (rule ComputeRequests_Reuse)
  moreover have "ComputeLimits pod (Some (opts\<lparr>Reuse := Some reuse1\<rparr>)) s =
        ComputeLimits pod (Some (opts\<lparr>Reuse := None\<rparr>)) s"
    by (rule ComputeLimits_Reuse)
  moreover have "ComputeLimits pod (Some (opts\<lparr>Reuse := Some reuse2\<rparr>)) s =
        ComputeLimits pod (Some (opts\<lparr>Reuse := None\<rparr>)) s"
    by (rule ComputeLimits_Reuse)
  moreover have "PodRequests_store podRef (Some (optsRef\<lparr>Reuse := Some r\<rparr>))
         (\<sigma>\<lparr>maps := (maps \<sigma>)(r := entries1)\<rparr>, s) =
     PodRequests_store podRef (Some (optsRef\<lparr>Reuse := Some r\<rparr>))
         (\<sigma>\<lparr>maps := (maps \<sigma>)(r := entries2)\<rparr>, s)"
    by (rule PodRequests_store_cong[OF reuseOrClear_store_entries])
  moreover have "PodLimits_store podRef (Some (optsRef\<lparr>Reuse := Some r\<rparr>))
         (\<sigma>\<lparr>maps := (maps \<sigma>)(r := entries1)\<rparr>, s) =
     PodLimits_store podRef (Some (optsRef\<lparr>Reuse := Some r\<rparr>))
         (\<sigma>\<lparr>maps := (maps \<sigma>)(r := entries2)\<rparr>, s)"
    by (rule PodLimits_store_cong[OF reuseOrClear_store_entries])
  ultimately show ?thesis by simp
qed

subsection \<open>Agreement with the value-level functions\<close>

lemma map_of_readList:
  "map_of (readList \<sigma> m) name = map_option (cells \<sigma>) (map_of (maps \<sigma> m) name)"
  by (simp add: readList_def map_of_map)

lemma map_update_fresh:
  "\<forall>e\<in>set l. c' (snd e) = c (snd e) \<Longrightarrow>
   map (\<lambda>(n, b). (n, c' b)) (AList.update k a l) =
     AList.update k (c' a) (map (\<lambda>(n, b). (n, c b)) l)"
  by (induction l) auto

lemma map_update_cell:
  "distinct (map snd l) \<Longrightarrow> map_of l k = Some a \<Longrightarrow>
   map (\<lambda>(n, b). (n, (c(a := x)) b)) l = AList.update k x (map (\<lambda>(n, b). (n, c b)) l)"
proof (induction l)
  case Nil
  then show ?case by simp
next
  case (Cons e l)
  obtain k' b where e: "e = (k', b)" by (cases e)
  show ?case
  proof (cases "k' = k")
    case True
    with Cons.prems e have b: "b = a" and nin: "a \<notin> snd ` set l" by auto
    have "map (\<lambda>(n, b). (n, (c(a := x)) b)) l = map (\<lambda>(n, b). (n, c b)) l"
      using nin by (intro map_cong) (auto simp: image_iff)
    then show ?thesis using True b e by simp
  next
    case False
    with Cons.prems e have m: "map_of l k = Some a" and d: "distinct (map snd l)"
      and "b \<notin> snd ` set l" by auto
    from m have "a \<in> snd ` set l" by (rule map_of_snd)
    with \<open>b \<notin> snd ` set l\<close> have "b \<noteq> a" by auto
    then show ?thesis using False e Cons.IH[OF d m] by simp
  qed
qed

lemma distinct_snd_update_fresh:
  "distinct (map snd l) \<Longrightarrow> a \<notin> snd ` set l \<Longrightarrow> distinct (map snd (AList.update k a l))"
proof (induction l)
  case Nil
  then show ?case by simp
next
  case (Cons e l)
  obtain k' b where e: "e = (k', b)" by (cases e)
  have sub: "\<And>x. x \<in> snd ` set (AList.update k a l) \<Longrightarrow> x = a \<or> x \<in> snd ` set l"
    by (rule snd_set_update)
  show ?case
    using Cons e sub by (auto simp: image_iff)
qed

lemma simD:
  assumes "sim acc \<sigma>0 \<sigma> list"
  shows "frame acc \<sigma>0 \<sigma>" and "readList \<sigma> acc = list" and "distinct (map snd (maps \<sigma> acc))"
  using assms unfolding sim_def by simp_all

lemma sim_copy:
  assumes s: "sim acc \<sigma>0 \<sigma> list" and q: "q < next_cell \<sigma>0"
  shows "sim acc \<sigma>0 (let (copy, \<sigma>) = DeepCopy_store q \<sigma> in assign acc name copy \<sigma>)
           (AList.update name (DeepCopy (cells \<sigma>0 q)) list)"
proof -
  note fr = simD(1)[OF s]
  let ?c' = "(cells \<sigma>)(next_cell \<sigma> := DeepCopy (cells \<sigma> q))"
  let ?\<sigma>' = "\<sigma>\<lparr>cells := ?c', next_cell := Suc (next_cell \<sigma>),
               maps := (maps \<sigma>)(acc := AList.update name (next_cell \<sigma>) (maps \<sigma> acc))\<rparr>"
  have eq: "(let (copy, \<sigma>) = DeepCopy_store q \<sigma> in assign acc name copy \<sigma>) = ?\<sigma>'"
    by (simp add: DeepCopy_store_def assign_def)
  have old: "\<forall>e\<in>set (maps \<sigma> acc). snd e \<noteq> next_cell \<sigma>"
  proof
    fix e assume "e \<in> set (maps \<sigma> acc)"
    then have "snd e \<in> snd ` set (maps \<sigma> acc)" by (rule imageI)
    from frameD(4)[OF fr this] show "snd e \<noteq> next_cell \<sigma>" by simp
  qed
  then have same: "\<forall>e\<in>set (maps \<sigma> acc). ?c' (snd e) = cells \<sigma> (snd e)" by simp
  have cq: "cells \<sigma> q = cells \<sigma>0 q" using frameD(2)[OF fr q] .
  have "readList ?\<sigma>' acc = AList.update name (DeepCopy (cells \<sigma>0 q)) list"
    using map_update_fresh[OF same, of name "next_cell \<sigma>"] simD(2)[OF s]
    by (simp add: readList_def cq)
  moreover have "distinct (map snd (maps ?\<sigma>' acc))"
  proof -
    from old have "next_cell \<sigma> \<notin> snd ` set (maps \<sigma> acc)" by auto
    from distinct_snd_update_fresh[OF simD(3)[OF s] this, of name] show ?thesis by simp
  qed
  moreover have "frame acc \<sigma>0 ?\<sigma>'"
    using frame_copy[OF fr, of q name] by (simp only: eq)
  ultimately show ?thesis unfolding sim_def by (simp only: eq simp_thms)
qed

lemma sim_add:
  assumes s: "sim acc \<sigma>0 \<sigma> list" and q: "q < next_cell \<sigma>0"
    and m: "map_of (maps \<sigma> acc) name = Some value"
  shows "sim acc \<sigma>0 (assign acc name value (Add_store value q \<sigma>))
           (AList.update name (Add (cells \<sigma> value) (cells \<sigma>0 q)) list)"
proof -
  note fr = simD(1)[OF s]
  let ?x = "Add (cells \<sigma> value) (cells \<sigma> q)"
  let ?\<sigma>' = "\<sigma>\<lparr>cells := (cells \<sigma>)(value := ?x),
               maps := (maps \<sigma>)(acc := AList.update name value (maps \<sigma> acc))\<rparr>"
  have eq: "assign acc name value (Add_store value q \<sigma>) = ?\<sigma>'"
    by (simp add: Add_store_def assign_def)
  have triv: "AList.update name value (maps \<sigma> acc) = maps \<sigma> acc"
    using m by (rule update_triv)
  have cq: "cells \<sigma> q = cells \<sigma>0 q" using frameD(2)[OF fr q] .
  have "readList ?\<sigma>' acc = AList.update name (Add (cells \<sigma> value) (cells \<sigma>0 q)) list"
    using map_update_cell[OF simD(3)[OF s] m, of "cells \<sigma>" ?x] simD(2)[OF s]
    by (simp add: readList_def triv cq)
  moreover have "distinct (map snd (maps ?\<sigma>' acc))"
    using simD(3)[OF s] by (simp add: triv)
  moreover have "frame acc \<sigma>0 ?\<sigma>'"
    using frame_add[OF fr m, of q] by (simp only: eq)
  ultimately show ?thesis unfolding sim_def by (simp only: eq simp_thms)
qed

lemma sim_lookup:
  assumes "sim acc \<sigma>0 \<sigma> list"
  shows "map_of list name = map_option (cells \<sigma>) (map_of (maps \<sigma> acc) name)"
  using simD(2)[OF assms] map_of_readList[of \<sigma> acc name] by simp

lemma sim_add_loop:
  assumes "sim acc \<sigma>0 \<sigma> list" and "\<forall>e\<in>set entries. snd e < next_cell \<sigma>0"
  shows "sim acc \<sigma>0
     (fold (\<lambda>(name, quantity) \<sigma>.
             case map_of (maps \<sigma> acc) name of
               None \<Rightarrow>
                 (let (copy, \<sigma>) = DeepCopy_store quantity \<sigma> in assign acc name copy \<sigma>)
             | Some value \<Rightarrow> assign acc name value (Add_store value quantity \<sigma>))
          entries \<sigma>)
     (fold (\<lambda>(name, quantity) list.
             case map_of list name of
               None \<Rightarrow> AList.update name (DeepCopy quantity) list
             | Some value \<Rightarrow> AList.update name (Add value quantity) list)
          (map (\<lambda>(name, a). (name, cells \<sigma>0 a)) entries) list)"
  using assms
proof (induction entries arbitrary: \<sigma> list)
  case Nil
  then show ?case by simp
next
  case (Cons e entries)
  obtain n q where e: "e = (n, q)" by (cases e)
  from Cons.prems(2) e have q: "q < next_cell \<sigma>0"
    and rest: "\<forall>e\<in>set entries. snd e < next_cell \<sigma>0" by simp_all
  note lk = sim_lookup[OF Cons.prems(1), of n]
  show ?case
  proof (cases "map_of (maps \<sigma> acc) n")
    case None
    then show ?thesis
      using Cons.IH[OF sim_copy[OF Cons.prems(1) q, of n] rest] lk by (simp add: e)
  next
    case (Some v)
    then show ?thesis
      using Cons.IH[OF sim_add[OF Cons.prems(1) q Some] rest] lk by (simp add: e)
  qed
qed

lemma sim_max_loop:
  assumes "sim acc \<sigma>0 \<sigma> list" and "\<forall>e\<in>set entries. snd e < next_cell \<sigma>0"
  shows "sim acc \<sigma>0
     (fold (\<lambda>(name, quantity) \<sigma>.
             case map_of (maps \<sigma> acc) name of
               None \<Rightarrow>
                 (let (copy, \<sigma>) = DeepCopy_store quantity \<sigma> in assign acc name copy \<sigma>)
             | Some value \<Rightarrow>
                 if Cmp (cells \<sigma> quantity) (cells \<sigma> value) > 0
                 then (let (copy, \<sigma>) = DeepCopy_store quantity \<sigma> in assign acc name copy \<sigma>)
                 else \<sigma>)
          entries \<sigma>)
     (fold (\<lambda>(name, quantity) list.
             case map_of list name of
               None \<Rightarrow> AList.update name (DeepCopy quantity) list
             | Some value \<Rightarrow>
                 if Cmp quantity value > 0 then AList.update name (DeepCopy quantity) list
                 else list)
          (map (\<lambda>(name, a). (name, cells \<sigma>0 a)) entries) list)"
  using assms
proof (induction entries arbitrary: \<sigma> list)
  case Nil
  then show ?case by simp
next
  case (Cons e entries)
  obtain n q where e: "e = (n, q)" by (cases e)
  from Cons.prems(2) e have q: "q < next_cell \<sigma>0"
    and rest: "\<forall>e\<in>set entries. snd e < next_cell \<sigma>0" by simp_all
  note lk = sim_lookup[OF Cons.prems(1), of n]
  have cq: "cells \<sigma> q = cells \<sigma>0 q" using frameD(2)[OF simD(1)[OF Cons.prems(1)] q] .
  show ?case
  proof (cases "map_of (maps \<sigma> acc) n")
    case None
    then show ?thesis
      using Cons.IH[OF sim_copy[OF Cons.prems(1) q, of n] rest] lk by (simp add: e)
  next
    case (Some v)
    show ?thesis
    proof (cases "Cmp (cells \<sigma> q) (cells \<sigma> v) > 0")
      case True
      then show ?thesis
        using Some Cons.IH[OF sim_copy[OF Cons.prems(1) q, of n] rest] lk by (simp add: e cq)
    next
      case False
      then show ?thesis
        using Some Cons.IH[OF Cons.prems(1) rest] lk by (simp add: e cq)
    qed
  qed
qed


lemma sim_addResourceList_store:
  assumes "sim acc \<sigma>0 \<sigma> list" and "newList \<noteq> acc"
    and "\<forall>e\<in>set (maps \<sigma>0 newList). snd e < next_cell \<sigma>0"
  shows "sim acc \<sigma>0 (addResourceList_store acc newList \<sigma>)
           (addResourceList list (readList \<sigma>0 newList))"
  using sim_add_loop[OF assms(1,3)] frameD(1)[OF simD(1)[OF assms(1)] assms(2)]
  by (simp add: addResourceList_store_def addResourceList_def readList_def)

lemma sim_maxResourceList_store:
  assumes "sim acc \<sigma>0 \<sigma> list" and "newList \<noteq> acc"
    and "\<forall>e\<in>set (maps \<sigma>0 newList). snd e < next_cell \<sigma>0"
  shows "sim acc \<sigma>0 (maxResourceList_store acc newList \<sigma>)
           (maxResourceList list (readList \<sigma>0 newList))"
  using sim_max_loop[OF assms(1,3)] frameD(1)[OF simD(1)[OF assms(1)] assms(2)]
  by (simp add: maxResourceList_store_def maxResourceList_def readList_def)

lemma sim_reuseOrClear:
  "sim (fst (reuseOrClearResourceList_store reuse \<sigma>0)) \<sigma>0
       (snd (reuseOrClearResourceList_store reuse \<sigma>0)) []"
proof (cases reuse)
  case None
  then show ?thesis
    using frame_reuseOrClear_fst_snd[of reuse \<sigma>0]
    by (simp add: sim_def reuseOrClearResourceList_store_def readList_def)
next
  case (Some r)
  have "fold (\<lambda>k l. AList.delete k l) (map fst (maps \<sigma>0 r)) (maps \<sigma>0 r) = []"
    by (rule fold_delete_Nil) simp
  then show ?thesis
    using Some frame_reuseOrClear_fst_snd[of reuse \<sigma>0] clear_loop[of r "map fst (maps \<sigma>0 r)" \<sigma>0]
    by (simp add: sim_def reuseOrClearResourceList_store_def readList_def)
qed


lemma options_simps:
  "callContainerFn zero_PodResourcesOptions res t s = s"
  "\<not> ExcludeOverhead zero_PodResourcesOptions"
  "callContainerFn (readOptions \<sigma> opts) res t s = callContainerFn opts res t s"
  "ExcludeOverhead (readOptions \<sigma> opts) = ExcludeOverhead opts"
  by (simp_all add: readOptions_def zero_PodResourcesOptions_def callContainerFn_def)



subsection \<open>Inputs are not mutated, results are copies\<close>

lemmas store_defs = PodRequests_store_def PodLimits_store_def
  reuseOrClearResourceList_store_def addResourceList_store_def maxResourceList_store_def
  DeepCopy_store_def Add_store_def assign_def callContainerFn_def
  DeepCopy_def Add_def Cmp_def IsZero_def

lemma example_run:
  "PodRequests_store examplePodRef (Some reuseOptions) (exampleStore, ()) =
     (3,
      exampleStore\<lparr>maps := (maps exampleStore)(3 := [(''cpu'', 5), (''memory'', 6)]),
                   cells := (cells exampleStore)(6 := 1073741824, 5 := 13 / 4),
                   next_cell := 7\<rparr>,
      ())"
  by (simp add: store_defs examplePodRef_def reuseOptions_def exampleStore_def)

text \<open>
  C8 as it is stated, for every pod and options, fails when the reuse map is one of the
  pod's own resource lists: PodRequests clears that list and fills it with the result.
  In the example the requests of the first container are \<^verbatim>\<open>{cpu:1}\<close> before the call
  and \<^verbatim>\<open>{cpu:9/4, memory:1Gi}\<close> after it.
\<close>

theorem reuse_aliasing_input_counterexample:
  "inputs_allocated exampleStore examplePodRef
   \<and> 0 \<in> set (podRefs examplePodRef)
   \<and> readList exampleStore 0 = [(''cpu'', 1)]
   \<and> fst (PodRequests_store examplePodRef (Some aliasOptions) (exampleStore, ())) = 0
   \<and> readList (fst (snd (PodRequests_store examplePodRef (Some aliasOptions) (exampleStore, ())))) 0
       = [(''cpu'', 9 / 4), (''memory'', 1073741824)]
   \<and> readList (fst (snd (PodRequests_store examplePodRef (Some aliasOptions) (exampleStore, ())))) 0
       \<noteq> readList exampleStore 0
   \<and> \<not> reuse_separate examplePodRef (Some aliasOptions)
   \<and> \<not> input_isolated exampleStore 0 99
         (PodRequests_store examplePodRef (Some aliasOptions) (exampleStore, ()))"
proof -
  have run: "PodRequests_store examplePodRef (Some aliasOptions) (exampleStore, ()) =
     (0,
      exampleStore\<lparr>maps := (maps exampleStore)(0 := [(''cpu'', 5), (''memory'', 6)]),
                   cells := (cells exampleStore)(6 := 1073741824, 5 := 9 / 4),
                   next_cell := 7\<rparr>,
      ())"
    by (simp add: store_defs examplePodRef_def aliasOptions_def exampleStore_def)
  have h1: "inputs_allocated exampleStore examplePodRef"
    by (simp add: inputs_allocated_def podRefs_def examplePodRef_def exampleStore_def)
  have h3: "0 \<in> set (podRefs examplePodRef)"
    by (simp add: podRefs_def examplePodRef_def)
  have h2: "\<not> reuse_separate examplePodRef (Some aliasOptions)"
    by (simp add: reuse_separate_def podRefs_def examplePodRef_def aliasOptions_def)
  show ?thesis
    using h1 h2 h3
    by (simp add: run input_isolated_def) (simp add: readList_def exampleStore_def)
qed

text \<open>
  C8, amended. For every pod and options whose reuse map is none of the pod's own
  resource lists, PodRequests and PodLimits leave every resource list of the pod
  (container requests and limits, overhead) as it was, and every quantity of the
  returned map is a copy in a cell of its own: no cell of the result is a cell of an
  input, so writing to a quantity of the result never changes a resource list of the
  pod.
\<close>

theorem inputs_never_mutated_outputs_are_copies:
  assumes "inputs_allocated \<sigma> pod"
    and "reuse_separate pod opts0"
    and "m \<in> set (podRefs pod)"
  shows "input_isolated \<sigma> m v (PodRequests_store pod opts0 (\<sigma>, s))
       \<and> input_isolated \<sigma> m v (PodLimits_store pod opts0 (\<sigma>, s))"
proof -
  have ne: "m \<noteq> fst (PodRequests_store pod opts0 (\<sigma>, s))"
    "m \<noteq> fst (PodLimits_store pod opts0 (\<sigma>, s))"
    using input_ne_acc[OF assms] by (simp_all add: fst_PodRequests_store fst_PodLimits_store)
  have al: "\<And>a. a \<in> snd ` set (maps \<sigma> m) \<Longrightarrow> a < next_cell \<sigma>"
    using input_cells_allocated[OF assms(1,3)] .
  have "input_isolated \<sigma> m v
          (fst (PodRequests_store pod opts0 (\<sigma>, s)),
           fst (snd (PodRequests_store pod opts0 (\<sigma>, s))),
           snd (snd (PodRequests_store pod opts0 (\<sigma>, s))))"
    using frame_PodRequests_store ne(1) al by (rule frame_isolates)
  moreover have "input_isolated \<sigma> m v
          (fst (PodLimits_store pod opts0 (\<sigma>, s)),
           fst (snd (PodLimits_store pod opts0 (\<sigma>, s))),
           snd (snd (PodLimits_store pod opts0 (\<sigma>, s))))"
    using frame_PodLimits_store ne(2) al by (rule frame_isolates)
  ultimately show ?thesis by simp
qed

theorem inputs_never_mutated_outputs_are_copies_witness:
  "inputs_allocated exampleStore examplePodRef
   \<and> reuse_separate examplePodRef (Some reuseOptions)
   \<and> 1 \<in> set (podRefs examplePodRef)
   \<and> input_isolated exampleStore 1 99
        (PodRequests_store examplePodRef (Some reuseOptions) (exampleStore, ()))
   \<and> (let (reqs, \<sigma>', s') = PodRequests_store examplePodRef (Some reuseOptions) (exampleStore, ())
       in reqs = 3
          \<and> readList exampleStore 3 = [(''gpu'', 7)]
          \<and> readList \<sigma>' reqs = [(''cpu'', 13 / 4), (''memory'', 1073741824)]
          \<and> readList \<sigma>' 1 = [(''cpu'', 2), (''memory'', 1073741824)]
          \<and> readList (\<sigma>'\<lparr>cells := (cells \<sigma>')(5 := 99)\<rparr>) reqs
               = [(''cpu'', 99), (''memory'', 1073741824)]
          \<and> readList (\<sigma>'\<lparr>cells := (cells \<sigma>')(5 := 99)\<rparr>) 1
               = [(''cpu'', 2), (''memory'', 1073741824)])"
proof -
  have h1: "inputs_allocated exampleStore examplePodRef"
    by (simp add: inputs_allocated_def podRefs_def examplePodRef_def exampleStore_def)
  have h2: "reuse_separate examplePodRef (Some reuseOptions)"
    by (simp add: reuse_separate_def podRefs_def examplePodRef_def reuseOptions_def)
  have h3: "1 \<in> set (podRefs examplePodRef)"
    by (simp add: podRefs_def examplePodRef_def)
  have r: "readList exampleStore 1 = [(''cpu'', 2), (''memory'', 1073741824)]"
    "readList exampleStore 3 = [(''gpu'', 7)]"
    by (simp_all add: readList_def exampleStore_def)
  show ?thesis
    using h1 h2 h3 inputs_never_mutated_outputs_are_copies[OF h1 h2 h3, of 99 "()"]
    by (simp add: example_run input_isolated_def r) (simp add: readList_def exampleStore_def)
qed

section \<open>Properties of PodRequests and PodLimits\<close>

text \<open>
  The properties of this section are about the functions of the source on the store.
  Where the reuse map is none of the pod's own resource lists they follow from the
  properties of the value-level functions through the refinement lemmas; where it is
  one of them, the example runs show what the code returns instead.
\<close>

subsection \<open>Reading the result\<close>






subsection \<open>Example runs\<close>












subsection \<open>Overhead in the limits\<close>




subsection \<open>Sum over the regular containers\<close>




subsection \<open>Maximum over the init containers\<close>




subsection \<open>Names of the containers are keys of the result\<close>




subsection \<open>Nil options\<close>

lemma snd_fold_keep:
  "snd (fold (\<lambda>c p. (G c p, snd p)) cs st) = snd st"
  by (induction cs arbitrary: st) simp_all

lemma PodRequests_store_None:
  "PodRequests_store pod None st = PodRequests_store pod (Some zero_PodResourcesOptions) st"
  by (simp add: PodRequests_store_def)

lemma PodLimits_store_None:
  "PodLimits_store pod None st = PodLimits_store pod (Some zero_PodResourcesOptions) st"
  by (simp add: PodLimits_store_def)

lemma PodRequests_store_state:
  "snd (snd (PodRequests_store pod None (\<sigma>, s))) = s"
  by (simp add: PodRequests_store_def Let_def split_def options_simps snd_fold_keep)

lemma PodLimits_store_state:
  "snd (snd (PodLimits_store pod None (\<sigma>, s))) = s"
  by (simp add: PodLimits_store_def Let_def split_def options_simps snd_fold_keep)

text \<open>
  C7. For every pod, PodRequests and PodLimits called with nil options return what they
  return with the default options: no reuse map, overhead included (ExcludeOverhead
  false), no per-container callback. Without a callback the state of the caller is as
  before the call. That holds for ComputeRequests and ComputeLimits on values, and for
  PodRequests and PodLimits on the store, where the two calls return the same map in
  the same store.
\<close>

theorem nil_options_are_defaults:
  "ComputeRequests pod None s =
     ComputeRequests pod (Some \<lparr>Reuse = None, ExcludeOverhead = False, ContainerFn = None\<rparr>) s
   \<and> ComputeLimits pod None s =
     ComputeLimits pod (Some \<lparr>Reuse = None, ExcludeOverhead = False, ContainerFn = None\<rparr>) s
   \<and> snd (ComputeRequests pod None s) = s
   \<and> snd (ComputeLimits pod None s) = s
   \<and> PodRequests_store podRef None st =
     PodRequests_store podRef
       (Some \<lparr>Reuse = None, ExcludeOverhead = False, ContainerFn = None\<rparr>) st
   \<and> PodLimits_store podRef None st =
     PodLimits_store podRef
       (Some \<lparr>Reuse = None, ExcludeOverhead = False, ContainerFn = None\<rparr>) st
   \<and> snd (snd (PodRequests_store podRef None (\<sigma>, s))) = s
   \<and> snd (snd (PodLimits_store podRef None (\<sigma>, s))) = s"
proof -
  have "PodRequests_store podRef None st =
     PodRequests_store podRef
       (Some \<lparr>Reuse = None, ExcludeOverhead = False, ContainerFn = None\<rparr>) st"
    by (simp add: PodRequests_store_None zero_PodResourcesOptions_def)
  moreover have "PodLimits_store podRef None st =
     PodLimits_store podRef
       (Some \<lparr>Reuse = None, ExcludeOverhead = False, ContainerFn = None\<rparr>) st"
    by (simp add: PodLimits_store_None zero_PodResourcesOptions_def)
  moreover note Compute_nil_defaults[of pod s]
    PodRequests_store_state[of podRef \<sigma> s] PodLimits_store_state[of podRef \<sigma> s]
  ultimately show ?thesis by blast
qed

subsection \<open>Two calls with the same reuse map\<close>

text \<open>
  The loops of PodRequests, run twice from two stores that give the same inputs, keep
  the accumulator the same in both runs. An input may be the accumulator itself: then
  \<^verbatim>\<open>addResourceList\<close> adds every entry of the accumulator to itself and
  \<^verbatim>\<open>maxResourceList\<close> changes nothing, in both runs alike.
\<close>

lemma sim_copy_any:
  assumes s: "sim acc \<sigma>0 \<sigma> list"
  shows "sim acc \<sigma>0 (let (copy, \<sigma>) = DeepCopy_store q \<sigma> in assign acc name copy \<sigma>)
           (AList.update name (DeepCopy (cells \<sigma> q)) list)"
proof -
  note fr = simD(1)[OF s]
  let ?c' = "(cells \<sigma>)(next_cell \<sigma> := DeepCopy (cells \<sigma> q))"
  let ?\<sigma>' = "\<sigma>\<lparr>cells := ?c', next_cell := Suc (next_cell \<sigma>),
               maps := (maps \<sigma>)(acc := AList.update name (next_cell \<sigma>) (maps \<sigma> acc))\<rparr>"
  have eq: "(let (copy, \<sigma>) = DeepCopy_store q \<sigma> in assign acc name copy \<sigma>) = ?\<sigma>'"
    by (simp add: DeepCopy_store_def assign_def)
  have old: "\<forall>e\<in>set (maps \<sigma> acc). snd e \<noteq> next_cell \<sigma>"
  proof
    fix e assume "e \<in> set (maps \<sigma> acc)"
    then have "snd e \<in> snd ` set (maps \<sigma> acc)" by (rule imageI)
    from frameD(4)[OF fr this] show "snd e \<noteq> next_cell \<sigma>" by simp
  qed
  then have same: "\<forall>e\<in>set (maps \<sigma> acc). ?c' (snd e) = cells \<sigma> (snd e)" by simp
  have "readList ?\<sigma>' acc = AList.update name (DeepCopy (cells \<sigma> q)) list"
    using map_update_fresh[OF same, of name "next_cell \<sigma>"] simD(2)[OF s]
    by (simp add: readList_def)
  moreover have "distinct (map snd (maps ?\<sigma>' acc))"
  proof -
    from old have "next_cell \<sigma> \<notin> snd ` set (maps \<sigma> acc)" by auto
    from distinct_snd_update_fresh[OF simD(3)[OF s] this, of name] show ?thesis by simp
  qed
  moreover have "frame acc \<sigma>0 ?\<sigma>'"
    using frame_copy[OF fr, of q name] by (simp only: eq)
  ultimately show ?thesis unfolding sim_def by (simp only: eq simp_thms)
qed

lemma sim_add_any:
  assumes s: "sim acc \<sigma>0 \<sigma> list"
    and m: "map_of (maps \<sigma> acc) name = Some value"
  shows "sim acc \<sigma>0 (assign acc name value (Add_store value q \<sigma>))
           (AList.update name (Add (cells \<sigma> value) (cells \<sigma> q)) list)"
proof -
  note fr = simD(1)[OF s]
  let ?x = "Add (cells \<sigma> value) (cells \<sigma> q)"
  let ?\<sigma>' = "\<sigma>\<lparr>cells := (cells \<sigma>)(value := ?x),
               maps := (maps \<sigma>)(acc := AList.update name value (maps \<sigma> acc))\<rparr>"
  have eq: "assign acc name value (Add_store value q \<sigma>) = ?\<sigma>'"
    by (simp add: Add_store_def assign_def)
  have triv: "AList.update name value (maps \<sigma> acc) = maps \<sigma> acc"
    using m by (rule update_triv)
  have "readList ?\<sigma>' acc = AList.update name ?x list"
    using map_update_cell[OF simD(3)[OF s] m, of "cells \<sigma>" ?x] simD(2)[OF s]
    by (simp add: readList_def triv)
  moreover have "distinct (map snd (maps ?\<sigma>' acc))"
    using simD(3)[OF s] by (simp add: triv)
  moreover have "frame acc \<sigma>0 ?\<sigma>'"
    using frame_add[OF fr m, of q] by (simp only: eq)
  ultimately show ?thesis unfolding sim_def by (simp only: eq simp_thms)
qed

lemma cell_of_one_entry:
  assumes "distinct (map snd l)" and "(a, q) \<in> set l" and "(b, q) \<in> set l"
  shows "a = b"
proof -
  from assms(1) have "inj_on snd (set l)" by (simp add: distinct_map)
  from inj_onD[OF this _ assms(2,3)] show ?thesis by simp
qed

lemma keys_readList: "map fst (readList \<sigma> m) = map fst (maps \<sigma> m)"
  by (simp add: readList_def comp_def split_def)

lemma sim_add_loop_alias:
  assumes "sim acc \<sigma>0 \<sigma> list"
    and "distinct (map fst (maps \<sigma> acc))"
    and "set entries \<subseteq> set (maps \<sigma> acc)"
    and "distinct (map fst entries)"
  shows "sim acc \<sigma>0
     (fold (\<lambda>(name, quantity) \<sigma>.
             case map_of (maps \<sigma> acc) name of
               None \<Rightarrow>
                 (let (copy, \<sigma>) = DeepCopy_store quantity \<sigma> in assign acc name copy \<sigma>)
             | Some value \<Rightarrow> assign acc name value (Add_store value quantity \<sigma>))
          entries \<sigma>)
     (fold (\<lambda>(name, quantity) list.
             case map_of list name of
               None \<Rightarrow> AList.update name (DeepCopy quantity) list
             | Some value \<Rightarrow> AList.update name (Add value quantity) list)
          (map (\<lambda>(name, a). (name, cells \<sigma> a)) entries) list)"
  using assms
proof (induction entries arbitrary: \<sigma> list)
  case Nil
  then show ?case by simp
next
  case (Cons e entries)
  obtain n q where e: "e = (n, q)" by (cases e)
  from Cons.prems(3) e have mem: "(n, q) \<in> set (maps \<sigma> acc)" by simp
  from Cons.prems(2) mem have lk: "map_of (maps \<sigma> acc) n = Some q" by simp
  let ?\<sigma>' = "assign acc n q (Add_store q q \<sigma>)"
  let ?list' = "AList.update n (Add (cells \<sigma> q) (cells \<sigma> q)) list"
  have s': "sim acc \<sigma>0 ?\<sigma>' ?list'" using Cons.prems(1) lk by (rule sim_add_any)
  have mp: "maps ?\<sigma>' acc = maps \<sigma> acc"
    using update_triv[OF lk] by (simp add: assign_def Add_store_def)
  have cl: "cells ?\<sigma>' = (cells \<sigma>)(q := Add (cells \<sigma> q) (cells \<sigma> q))"
    by (simp add: assign_def Add_store_def)
  have rest: "set entries \<subseteq> set (maps \<sigma> acc)" "distinct (map fst entries)"
    "n \<notin> fst ` set entries"
    using Cons.prems(3,4) e by auto
  have other: "snd e' \<noteq> q" if "e' \<in> set entries" for e'
  proof
    assume "snd e' = q"
    with that rest(1) have "(fst e', q) \<in> set (maps \<sigma> acc)" by (cases e') auto
    from cell_of_one_entry[OF simD(3)[OF Cons.prems(1)] this mem] have "fst e' = n" .
    with that rest(3) show False by auto
  qed
  have snap: "map (\<lambda>(name, a). (name, cells ?\<sigma>' a)) entries =
              map (\<lambda>(name, a). (name, cells \<sigma> a)) entries"
  proof (rule map_cong[OF refl])
    fix e' assume "e' \<in> set entries"
    from other[OF this] show "(case e' of (name, a) \<Rightarrow> (name, cells ?\<sigma>' a)) =
          (case e' of (name, a) \<Rightarrow> (name, cells \<sigma> a))"
      by (cases e') (simp add: cl)
  qed
  have lkv: "map_of list n = Some (cells \<sigma> q)"
    using sim_lookup[OF Cons.prems(1), of n] lk by simp
  from Cons.IH[OF s'] rest(1,2) Cons.prems(2)
  have "sim acc \<sigma>0
     (fold (\<lambda>(name, quantity) \<sigma>.
             case map_of (maps \<sigma> acc) name of
               None \<Rightarrow>
                 (let (copy, \<sigma>) = DeepCopy_store quantity \<sigma> in assign acc name copy \<sigma>)
             | Some value \<Rightarrow> assign acc name value (Add_store value quantity \<sigma>))
          entries ?\<sigma>')
     (fold (\<lambda>(name, quantity) list.
             case map_of list name of
               None \<Rightarrow> AList.update name (DeepCopy quantity) list
             | Some value \<Rightarrow> AList.update name (Add value quantity) list)
          (map (\<lambda>(name, a). (name, cells ?\<sigma>' a)) entries) ?list')"
    by (simp only: mp)
  then show ?case
    by (simp only: snap) (simp add: e lk lkv)
qed

lemma sim_max_loop_alias:
  assumes "sim acc \<sigma>0 \<sigma> list"
    and "distinct (map fst (maps \<sigma> acc))"
    and "set entries \<subseteq> set (maps \<sigma> acc)"
  shows "fold (\<lambda>(name, quantity) \<sigma>.
             case map_of (maps \<sigma> acc) name of
               None \<Rightarrow>
                 (let (copy, \<sigma>) = DeepCopy_store quantity \<sigma> in assign acc name copy \<sigma>)
             | Some value \<Rightarrow>
                 if Cmp (cells \<sigma> quantity) (cells \<sigma> value) > 0
                 then (let (copy, \<sigma>) = DeepCopy_store quantity \<sigma> in assign acc name copy \<sigma>)
                 else \<sigma>)
          entries \<sigma> = \<sigma>
       \<and> fold (\<lambda>(name, quantity) list.
             case map_of list name of
               None \<Rightarrow> AList.update name (DeepCopy quantity) list
             | Some value \<Rightarrow>
                 if Cmp quantity value > 0 then AList.update name (DeepCopy quantity) list
                 else list)
          (map (\<lambda>(name, a). (name, cells \<sigma> a)) entries) list = list"
  using assms(3)
proof (induction entries)
  case Nil
  then show ?case by simp
next
  case (Cons e entries)
  obtain n q where e: "e = (n, q)" by (cases e)
  from Cons.prems e have mem: "(n, q) \<in> set (maps \<sigma> acc)" by simp
  from assms(2) mem have lk: "map_of (maps \<sigma> acc) n = Some q" by simp
  have lkv: "map_of list n = Some (cells \<sigma> q)"
    using sim_lookup[OF assms(1), of n] lk by simp
  from Cons have "set entries \<subseteq> set (maps \<sigma> acc)" by simp
  from Cons.IH[OF this] show ?case
    by (simp add: e lk lkv Cmp_def)
qed

lemma distinct_keys_addResourceList:
  "distinct (map fst list) \<Longrightarrow> distinct (map fst (addResourceList list newList))"
  unfolding addResourceList_def
proof (induction newList arbitrary: list)
  case Nil
  then show ?case by simp
next
  case (Cons e newList)
  obtain n q where e: "e = (n, q)" by (cases e)
  show ?case
    using Cons.prems by (auto simp: e distinct_update split: option.splits intro!: Cons.IH)
qed

lemma distinct_keys_maxResourceList:
  "distinct (map fst list) \<Longrightarrow> distinct (map fst (maxResourceList list newList))"
  unfolding maxResourceList_def
proof (induction newList arbitrary: list)
  case Nil
  then show ?case by simp
next
  case (Cons e newList)
  obtain n q where e: "e = (n, q)" by (cases e)
  show ?case
    using Cons.prems by (auto simp: e distinct_update split: option.splits intro!: Cons.IH)
qed

lemma step_addResourceList_store:
  assumes s: "sim acc \<sigma>0 \<sigma> list" and d: "distinct (map fst list)"
    and m: "m = acc \<or> (\<forall>e\<in>set (maps \<sigma>0 m). snd e < next_cell \<sigma>0)"
  shows "sim acc \<sigma>0 (addResourceList_store acc m \<sigma>) (addResourceList list (readList \<sigma> m))"
proof (cases "m = acc")
  case True
  have dk: "distinct (map fst (maps \<sigma> acc))"
    using d simD(2)[OF s] keys_readList[of \<sigma> acc] by simp
  from sim_add_loop_alias[OF s dk subset_refl dk] show ?thesis
    by (simp add: True addResourceList_store_def addResourceList_def readList_def)
next
  case False
  with m have al: "\<forall>e\<in>set (maps \<sigma>0 m). snd e < next_cell \<sigma>0" by simp
  from frame_readList[OF simD(1)[OF s] False al] sim_addResourceList_store[OF s False al]
  show ?thesis by simp
qed

lemma step_maxResourceList_store:
  assumes s: "sim acc \<sigma>0 \<sigma> list" and d: "distinct (map fst list)"
    and m: "m = acc \<or> (\<forall>e\<in>set (maps \<sigma>0 m). snd e < next_cell \<sigma>0)"
  shows "sim acc \<sigma>0 (maxResourceList_store acc m \<sigma>) (maxResourceList list (readList \<sigma> m))"
proof (cases "m = acc")
  case True
  have dk: "distinct (map fst (maps \<sigma> acc))"
    using d simD(2)[OF s] keys_readList[of \<sigma> acc] by simp
  from sim_max_loop_alias[OF s dk subset_refl] s show ?thesis
    by (simp add: True maxResourceList_store_def maxResourceList_def readList_def)
next
  case False
  with m have al: "\<forall>e\<in>set (maps \<sigma>0 m). snd e < next_cell \<sigma>0" by simp
  from frame_readList[OF simD(1)[OF s] False al] sim_maxResourceList_store[OF s False al]
  show ?thesis by simp
qed

lemma same_input_read:
  assumes "sim acc \<sigma>a0 \<sigma>a list" and "sim acc \<sigma>b0 \<sigma>b list" and "same_input acc \<sigma>a0 \<sigma>b0 m"
  shows "readList \<sigma>a m = readList \<sigma>b m"
proof (cases "m = acc")
  case True
  then show ?thesis using simD(2)[OF assms(1)] simD(2)[OF assms(2)] by simp
next
  case False
  with assms(3) have a: "\<forall>e\<in>set (maps \<sigma>a0 m). snd e < next_cell \<sigma>a0"
    and b: "\<forall>e\<in>set (maps \<sigma>b0 m). snd e < next_cell \<sigma>b0"
    and r: "readList \<sigma>a0 m = readList \<sigma>b0 m"
    by (simp_all add: same_input_def)
  from frame_readList[OF simD(1)[OF assms(1)] False a]
    frame_readList[OF simD(1)[OF assms(2)] False b] r
  show ?thesis by simp
qed

lemma agree_addResourceList_store:
  assumes "agree acc \<sigma>a0 \<sigma>a \<sigma>b0 \<sigma>b" and "same_input acc \<sigma>a0 \<sigma>b0 m"
  shows "agree acc \<sigma>a0 (addResourceList_store acc m \<sigma>a) \<sigma>b0 (addResourceList_store acc m \<sigma>b)"
proof -
  from assms(1) obtain list where a: "sim acc \<sigma>a0 \<sigma>a list" and b: "sim acc \<sigma>b0 \<sigma>b list"
    and d: "distinct (map fst list)" unfolding agree_def by blast
  from assms(2) have ma: "m = acc \<or> (\<forall>e\<in>set (maps \<sigma>a0 m). snd e < next_cell \<sigma>a0)"
    and mb: "m = acc \<or> (\<forall>e\<in>set (maps \<sigma>b0 m). snd e < next_cell \<sigma>b0)"
    by (auto simp: same_input_def)
  note r = same_input_read[OF a b assms(2)]
  have "sim acc \<sigma>a0 (addResourceList_store acc m \<sigma>a) (addResourceList list (readList \<sigma>a m))"
    using a d ma by (rule step_addResourceList_store)
  moreover have "sim acc \<sigma>b0 (addResourceList_store acc m \<sigma>b) (addResourceList list (readList \<sigma>a m))"
    using step_addResourceList_store[OF b d mb] by (simp add: r)
  moreover have "distinct (map fst (addResourceList list (readList \<sigma>a m)))"
    using d by (rule distinct_keys_addResourceList)
  ultimately show ?thesis unfolding agree_def by blast
qed

lemma agree_maxResourceList_store:
  assumes "agree acc \<sigma>a0 \<sigma>a \<sigma>b0 \<sigma>b" and "same_input acc \<sigma>a0 \<sigma>b0 m"
  shows "agree acc \<sigma>a0 (maxResourceList_store acc m \<sigma>a) \<sigma>b0 (maxResourceList_store acc m \<sigma>b)"
proof -
  from assms(1) obtain list where a: "sim acc \<sigma>a0 \<sigma>a list" and b: "sim acc \<sigma>b0 \<sigma>b list"
    and d: "distinct (map fst list)" unfolding agree_def by blast
  from assms(2) have ma: "m = acc \<or> (\<forall>e\<in>set (maps \<sigma>a0 m). snd e < next_cell \<sigma>a0)"
    and mb: "m = acc \<or> (\<forall>e\<in>set (maps \<sigma>b0 m). snd e < next_cell \<sigma>b0)"
    by (auto simp: same_input_def)
  note r = same_input_read[OF a b assms(2)]
  have "sim acc \<sigma>a0 (maxResourceList_store acc m \<sigma>a) (maxResourceList list (readList \<sigma>a m))"
    using a d ma by (rule step_maxResourceList_store)
  moreover have "sim acc \<sigma>b0 (maxResourceList_store acc m \<sigma>b) (maxResourceList list (readList \<sigma>a m))"
    using step_maxResourceList_store[OF b d mb] by (simp add: r)
  moreover have "distinct (map fst (maxResourceList list (readList \<sigma>a m)))"
    using d by (rule distinct_keys_maxResourceList)
  ultimately show ?thesis unfolding agree_def by blast
qed

lemma agree_fold:
  assumes step: "\<And>c \<sigma>a \<sigma>b. c \<in> set cs \<Longrightarrow> agree acc \<sigma>a0 \<sigma>a \<sigma>b0 \<sigma>b \<Longrightarrow>
                   agree acc \<sigma>a0 (F c \<sigma>a) \<sigma>b0 (F c \<sigma>b)"
    and "agree acc \<sigma>a0 \<sigma>a \<sigma>b0 \<sigma>b"
  shows "agree acc \<sigma>a0 (fold F cs \<sigma>a) \<sigma>b0 (fold F cs \<sigma>b)"
  using assms
proof (induction cs arbitrary: \<sigma>a \<sigma>b)
  case Nil
  then show ?case by simp
next
  case (Cons c cs)
  have "agree acc \<sigma>a0 (F c \<sigma>a) \<sigma>b0 (F c \<sigma>b)"
    using Cons.prems(1)[OF _ Cons.prems(2)] by simp
  moreover have "\<And>c' \<sigma>a \<sigma>b. c' \<in> set cs \<Longrightarrow> agree acc \<sigma>a0 \<sigma>a \<sigma>b0 \<sigma>b \<Longrightarrow>
                   agree acc \<sigma>a0 (F c' \<sigma>a) \<sigma>b0 (F c' \<sigma>b)"
    using Cons.prems(1) by simp
  ultimately show ?case using Cons.IH by simp
qed

lemma fst_fold_store:
  "fst (fold (\<lambda>c p. (F c (fst p), K c p)) cs st) = fold F cs (fst st)"
  by (induction cs arbitrary: st) simp_all

lemma reuseOrClear_store_any:
  "reuseOrClearResourceList_store (Some r) \<sigma> = (r, \<sigma>\<lparr>maps := (maps \<sigma>)(r := [])\<rparr>)"
  using reuseOrClear_store_Some[of r \<sigma> "maps \<sigma> r"] by simp

lemma store_of_PodRequests_store:
  "fst (snd (PodRequests_store pod (Some opts) (\<sigma>, s))) =
     (let acc = fst (reuseOrClearResourceList_store (Reuse opts) \<sigma>);
          \<sigma>3 = fold (\<lambda>c. maxResourceList_store acc (Requests (Resources c)))
                 (InitContainers (Spec pod))
                 (fold (\<lambda>c. addResourceList_store acc (Requests (Resources c)))
                    (Containers (Spec pod))
                    (snd (reuseOrClearResourceList_store (Reuse opts) \<sigma>)))
      in case Overhead (Spec pod) of
           Some overhead \<Rightarrow>
             if \<not> ExcludeOverhead opts then addResourceList_store acc overhead \<sigma>3 else \<sigma>3
         | None \<Rightarrow> \<sigma>3)"
proof -
  define acc where "acc = fst (reuseOrClearResourceList_store (Reuse opts) \<sigma>)"
  have a: "fst (fold (\<lambda>c p. (addResourceList_store acc (Requests (Resources c)) (fst p),
                 callContainerFn opts (readList (fst p) (Requests (Resources c)))
                   ContainerTypeContainers (snd p)))
             cs st) = fold (\<lambda>c. addResourceList_store acc (Requests (Resources c))) cs (fst st)"
    for cs st
    by (rule fst_fold_store
          [where F = "\<lambda>c. addResourceList_store acc (Requests (Resources c))"
             and K = "\<lambda>c p. callContainerFn opts (readList (fst p) (Requests (Resources c)))
                       ContainerTypeContainers (snd p)"])
  have m: "fst (fold (\<lambda>c p. (maxResourceList_store acc (Requests (Resources c)) (fst p),
                 callContainerFn opts (readList (fst p) (Requests (Resources c)))
                   ContainerTypeInitContainers (snd p)))
             cs st) = fold (\<lambda>c. maxResourceList_store acc (Requests (Resources c))) cs (fst st)"
    for cs st
    by (rule fst_fold_store
          [where F = "\<lambda>c. maxResourceList_store acc (Requests (Resources c))"
             and K = "\<lambda>c p. callContainerFn opts (readList (fst p) (Requests (Resources c)))
                       ContainerTypeInitContainers (snd p)"])
  show ?thesis
    by (simp add: PodRequests_store_def Let_def split_def acc_def[symmetric] a m
          split: option.splits)
qed

lemma same_input_of_frame:
  assumes al: "inputs_allocated \<sigma> pod" and fr: "frame acc \<sigma> \<sigma>1" and m: "m \<in> set (podRefs pod)"
  shows "same_input acc \<sigma> \<sigma>1 m"
proof (cases "m = acc")
  case True
  then show ?thesis by (simp add: same_input_def)
next
  case False
  note a = input_entries_allocated[OF al m]
  from fr False have eq: "maps \<sigma>1 m = maps \<sigma> m" and le: "next_cell \<sigma> \<le> next_cell \<sigma>1"
    by (simp_all add: frame_def)
  have b: "\<forall>e\<in>set (maps \<sigma>1 m). snd e < next_cell \<sigma>1"
    using a le by (auto simp: eq)
  have "readList \<sigma>1 m = readList \<sigma> m"
    using fr False a by (rule frame_readList)
  with a b show ?thesis by (simp add: same_input_def)
qed

lemma agree_PodRequests_loops:
  assumes ag: "agree acc \<sigma>a0 \<sigma>a \<sigma>b0 \<sigma>b"
    and si: "\<And>m. m \<in> set (podRefs pod) \<Longrightarrow> same_input acc \<sigma>a0 \<sigma>b0 m"
  shows "agree acc \<sigma>a0
           (let \<sigma>3 = fold (\<lambda>c. maxResourceList_store acc (Requests (Resources c)))
                       (InitContainers (Spec pod))
                       (fold (\<lambda>c. addResourceList_store acc (Requests (Resources c)))
                          (Containers (Spec pod)) \<sigma>a)
            in case Overhead (Spec pod) of
                 Some overhead \<Rightarrow>
                   if \<not> ExcludeOverhead opts then addResourceList_store acc overhead \<sigma>3 else \<sigma>3
               | None \<Rightarrow> \<sigma>3)
           \<sigma>b0
           (let \<sigma>3 = fold (\<lambda>c. maxResourceList_store acc (Requests (Resources c)))
                       (InitContainers (Spec pod))
                       (fold (\<lambda>c. addResourceList_store acc (Requests (Resources c)))
                          (Containers (Spec pod)) \<sigma>b)
            in case Overhead (Spec pod) of
                 Some overhead \<Rightarrow>
                   if \<not> ExcludeOverhead opts then addResourceList_store acc overhead \<sigma>3 else \<sigma>3
               | None \<Rightarrow> \<sigma>3)"
proof -
  let ?A = "\<lambda>c. addResourceList_store acc (Requests (Resources c))"
  let ?M = "\<lambda>c. maxResourceList_store acc (Requests (Resources c))"
  have 1: "agree acc \<sigma>a0 (fold ?A (Containers (Spec pod)) \<sigma>a)
                     \<sigma>b0 (fold ?A (Containers (Spec pod)) \<sigma>b)"
  proof (rule agree_fold[OF _ ag])
    fix c \<sigma>a' \<sigma>b'
    assume c: "c \<in> set (Containers (Spec pod))" and a: "agree acc \<sigma>a0 \<sigma>a' \<sigma>b0 \<sigma>b'"
    from c have "Requests (Resources c) \<in> set (podRefs pod)" using podRefs_container[of c pod] by simp
    then have "same_input acc \<sigma>a0 \<sigma>b0 (Requests (Resources c))" by (rule si)
    with a show "agree acc \<sigma>a0 (?A c \<sigma>a') \<sigma>b0 (?A c \<sigma>b')"
      by (rule agree_addResourceList_store)
  qed
  have 2: "agree acc \<sigma>a0 (fold ?M (InitContainers (Spec pod)) (fold ?A (Containers (Spec pod)) \<sigma>a))
                     \<sigma>b0 (fold ?M (InitContainers (Spec pod)) (fold ?A (Containers (Spec pod)) \<sigma>b))"
  proof (rule agree_fold[OF _ 1])
    fix c \<sigma>a' \<sigma>b'
    assume c: "c \<in> set (InitContainers (Spec pod))" and a: "agree acc \<sigma>a0 \<sigma>a' \<sigma>b0 \<sigma>b'"
    from c have "Requests (Resources c) \<in> set (podRefs pod)" using podRefs_container[of c pod] by simp
    then have "same_input acc \<sigma>a0 \<sigma>b0 (Requests (Resources c))" by (rule si)
    with a show "agree acc \<sigma>a0 (?M c \<sigma>a') \<sigma>b0 (?M c \<sigma>b')"
      by (rule agree_maxResourceList_store)
  qed
  show ?thesis
  proof (cases "Overhead (Spec pod)")
    case None
    with 2 show ?thesis by (simp add: Let_def)
  next
    case (Some overhead)
    then have "same_input acc \<sigma>a0 \<sigma>b0 overhead" using podRefs_overhead[of pod overhead] si by simp
    from agree_addResourceList_store[OF 2 this] 2 Some show ?thesis by (simp add: Let_def)
  qed
qed

lemma PodRequests_store_twice:
  assumes al: "inputs_allocated \<sigma> pod" and r: "Reuse opts = Some r"
  shows "resultOf (PodRequests_store pod (Some opts)
                     (fst (snd (PodRequests_store pod (Some opts) (\<sigma>, s))), s')) =
         resultOf (PodRequests_store pod (Some opts) (\<sigma>, s))"
proof -
  define \<sigma>1 where "\<sigma>1 = fst (snd (PodRequests_store pod (Some opts) (\<sigma>, s)))"
  have acc: "fst (PodRequests_store pod (Some opts) st) = r" for st :: "Store \<times> 'a"
    using fst_PodRequests_store[of pod "Some opts" "fst st" "snd st"] r by simp
  have fr: "frame r \<sigma> \<sigma>1"
    using frame_PodRequests_store[of pod "Some opts" \<sigma> s] acc[of "(\<sigma>, s)"] by (simp add: \<sigma>1_def)
  have clr: "fst (reuseOrClearResourceList_store (Reuse opts) \<sigma>') = r" for \<sigma>'
    by (simp add: r reuseOrClear_store_any)
  have sa: "sim r \<sigma> (snd (reuseOrClearResourceList_store (Reuse opts) \<sigma>)) []"
    using sim_reuseOrClear[of "Reuse opts" \<sigma>] by (simp add: clr)
  have sb: "sim r \<sigma>1 (snd (reuseOrClearResourceList_store (Reuse opts) \<sigma>1)) []"
    using sim_reuseOrClear[of "Reuse opts" \<sigma>1] by (simp add: clr)
  have ag: "agree r \<sigma> (snd (reuseOrClearResourceList_store (Reuse opts) \<sigma>))
                    \<sigma>1 (snd (reuseOrClearResourceList_store (Reuse opts) \<sigma>1))"
    unfolding agree_def using sa sb by (intro exI[of _ "[]"]) simp
  have si: "\<And>m. m \<in> set (podRefs pod) \<Longrightarrow> same_input r \<sigma> \<sigma>1 m"
    using al fr by (rule same_input_of_frame)
  from agree_PodRequests_loops[OF ag si, of pod opts]
  have "agree r \<sigma> (fst (snd (PodRequests_store pod (Some opts) (\<sigma>, s))))
                \<sigma>1 (fst (snd (PodRequests_store pod (Some opts) (\<sigma>1, s'))))"
    by (simp add: store_of_PodRequests_store clr)
  then obtain list where
    "sim r \<sigma> (fst (snd (PodRequests_store pod (Some opts) (\<sigma>, s)))) list"
    "sim r \<sigma>1 (fst (snd (PodRequests_store pod (Some opts) (\<sigma>1, s')))) list"
    unfolding agree_def by blast
  then have "readList (fst (snd (PodRequests_store pod (Some opts) (\<sigma>1, s')))) r =
             readList (fst (snd (PodRequests_store pod (Some opts) (\<sigma>, s)))) r"
    by (simp add: simD(2))
  then show ?thesis
    by (simp add: resultOf_def acc \<sigma>1_def)
qed

text \<open>
  C6. Calling PodRequests twice in sequence with the same pod and the same reuse map,
  which after the first call holds the first result, yields the same result both
  times: the map is cleared of every entry before it is filled again. That holds for
  the values that ComputeRequests computes, and for PodRequests on the store, where the
  second call starts in the store and the state that the first call left and is given
  the map that the first call returned. On the store the reuse map may be any map, also
  one of the pod's own resource lists.
\<close>

theorem PodRequests_reuse_idempotent:
  "reuseOrClearResourceList (Some reuse) = []
   \<and> (let (first, s') = ComputeRequests pod (Some (opts\<lparr>Reuse := Some reuse\<rparr>)) s;
           (second, s'') = ComputeRequests pod (Some (opts\<lparr>Reuse := Some first\<rparr>)) s'
       in second = first)
   \<and> maps (snd (reuseOrClearResourceList_store (Some r) \<sigma>)) r = []
   \<and> (inputs_allocated \<sigma> podRef \<longrightarrow>
        (let first = PodRequests_store podRef (Some (ropts\<lparr>Reuse := Some r\<rparr>)) (\<sigma>, t);
             second = PodRequests_store podRef (Some (ropts\<lparr>Reuse := Some (fst first)\<rparr>))
                        (snd first)
         in fst second = fst first \<and> resultOf second = resultOf first))"
proof -
  have v: "reuseOrClearResourceList (Some reuse) = []
     \<and> (let (first, s') = ComputeRequests pod (Some (opts\<lparr>Reuse := Some reuse\<rparr>)) s;
             (second, s'') = ComputeRequests pod (Some (opts\<lparr>Reuse := Some first\<rparr>)) s'
         in second = first)"
    by (rule ComputeRequests_reuse_idempotent)
  have c: "maps (snd (reuseOrClearResourceList_store (Some r) \<sigma>)) r = []"
    by (simp add: reuseOrClear_store_any)
  have t: "let first = PodRequests_store podRef (Some (ropts\<lparr>Reuse := Some r\<rparr>)) (\<sigma>, t);
               second = PodRequests_store podRef (Some (ropts\<lparr>Reuse := Some (fst first)\<rparr>))
                          (snd first)
           in fst second = fst first \<and> resultOf second = resultOf first"
    if al: "inputs_allocated \<sigma> podRef"
  proof -
    define first where "first = PodRequests_store podRef (Some (ropts\<lparr>Reuse := Some r\<rparr>)) (\<sigma>, t)"
    have f: "fst first = r"
      using fst_PodRequests_store[of podRef "Some (ropts\<lparr>Reuse := Some r\<rparr>)" \<sigma> t]
      by (simp add: first_def)
    have "fst (PodRequests_store podRef (Some (ropts\<lparr>Reuse := Some r\<rparr>)) (snd first)) = r"
      using fst_PodRequests_store[of podRef "Some (ropts\<lparr>Reuse := Some r\<rparr>)"
              "fst (snd first)" "snd (snd first)"]
      by simp
    moreover have "resultOf (PodRequests_store podRef (Some (ropts\<lparr>Reuse := Some r\<rparr>)) (snd first)) =
                   resultOf first"
      using PodRequests_store_twice[OF al, of "ropts\<lparr>Reuse := Some r\<rparr>" r t "snd (snd first)"]
      by (simp add: first_def[symmetric])
    ultimately show ?thesis
      by (simp add: Let_def first_def[symmetric] f)
  qed
  from v c t show ?thesis by blast
qed

theorem PodRequests_reuse_idempotent_witness:
  "inputs_allocated exampleStore examplePodRef
   \<and> (let first = PodRequests_store examplePodRef (Some aliasOptions) (exampleStore, ());
          second = PodRequests_store examplePodRef (Some (aliasOptions\<lparr>Reuse := Some (fst first)\<rparr>))
                     (snd first)
      in fst second = fst first \<and> resultOf second = resultOf first
         \<and> resultOf first = [(''cpu'', 9 / 4), (''memory'', 1073741824)])"
proof -
  have a: "inputs_allocated exampleStore examplePodRef"
    by (simp add: inputs_allocated_def podRefs_def exampleStore_def examplePodRef_def)
  have o: "aliasOptions\<lparr>Reuse := Some 0\<rparr> = aliasOptions"
    by (simp add: aliasOptions_def)
  have r: "resultOf (PodRequests_store examplePodRef (Some aliasOptions) (exampleStore, ())) =
           [(''cpu'', 9 / 4), (''memory'', 1073741824)]"
    by (simp add: store_defs resultOf_def readList_def exampleStore_def examplePodRef_def
          aliasOptions_def)
  show ?thesis
    using PodRequests_reuse_idempotent
            [of "[]" "readPod exampleStore examplePodRef" "readOptions exampleStore aliasOptions"
                "()" 0 exampleStore examplePodRef aliasOptions "()"]
      a r
    by (simp add: o Let_def)
qed

end
